theory Spec2Isabelle
  imports Complex_Main
begin

section \<open>Python numbers\<close>

text \<open>
  The worker of \<^verbatim>\<open>main_windows.py\<close> computes with Python integers (unbounded, modelled
  as \<^typ>\<open>int\<close>) and Python floats. A finite float is modelled by the real number it
  denotes, and every float operation rounds its exact result to the nearest number with
  a 53-bit significand, ties to even (\<open>fl\<close> below). The exponent range is not bounded:
  the model agrees with binary64 as long as results stay in the normal range, which
  covers every duration, resolution and percentage of this program. Infinities and NaN
  are not values of the model; where the source can meet them the model has an explicit
  branch.
\<close>

function ilog2 :: "int \<Rightarrow> int" where
  "ilog2 n = (if n < 2 then 0 else 1 + ilog2 (n div 2))"
  by pat_completeness auto
termination
  by (relation "measure nat") auto

declare ilog2.simps [simp del]

definition lg2 :: "real \<Rightarrow> int" where
  \<comment> \<open>the binary exponent of a positive number: \<open>2 powi lg2 x \<le> x < 2 powi (lg2 x + 1)\<close>\<close>
  "lg2 x = (if 1 \<le> x then ilog2 \<lfloor>x\<rfloor>
            else - (1 + ilog2 (\<lceil>1 / x\<rceil> - 1)))"

definition round_half_even :: "real \<Rightarrow> int" where
  "round_half_even y =
     (let f = \<lfloor>y\<rfloor>; d = y - of_int f
      in if d < 1 / 2 then f
         else if 1 / 2 < d then f + 1
         else if even f then f else f + 1)"

definition fl :: "real \<Rightarrow> real" where
  \<comment> \<open>round to nearest, ties to even, 53 significant bits\<close>
  "fl x = (if x = 0 then 0
           else let e = lg2 \<bar>x\<bar> - 52;
                    m = round_half_even (\<bar>x\<bar> / 2 powi e)
                in sgn x * of_int m * 2 powi e)"

datatype exn = ValueError | ZeroDivisionError | OverflowError | OSError string

definition truediv :: "int \<Rightarrow> int \<Rightarrow> exn + real" where
  \<comment> \<open>\<^verbatim>\<open>a / b\<close> on two Python ints: the correctly rounded quotient\<close>
  "truediv a b =
     (if b = 0 then Inl ZeroDivisionError
      else if 2 ^ 1024 \<le> \<bar>fl (of_int a / of_int b)\<bar> then Inl OverflowError
      else Inr (fl (of_int a / of_int b)))"

definition float_of_int :: "int \<Rightarrow> real" where
  \<comment> \<open>the implicit conversion of an int operand in mixed arithmetic\<close>
  "float_of_int k = fl (of_int k)"

definition float_sub_int :: "real \<Rightarrow> int \<Rightarrow> real" where
  \<comment> \<open>\<^verbatim>\<open>x - k\<close> with a float \<open>x\<close> and an int \<open>k\<close>\<close>
  "float_sub_int x k = fl (x - float_of_int k)"

definition int_add_float :: "int \<Rightarrow> real \<Rightarrow> real" where
  \<comment> \<open>\<^verbatim>\<open>k + x\<close> with an int \<open>k\<close> and a float \<open>x\<close>\<close>
  "int_add_float k x = fl (float_of_int k + x)"

definition float_mul_int :: "real \<Rightarrow> int \<Rightarrow> real" where
  \<comment> \<open>\<^verbatim>\<open>x * k\<close> with a float \<open>x\<close> and an int \<open>k\<close>\<close>
  "float_mul_int x k = fl (x * float_of_int k)"

definition py_int :: "real \<Rightarrow> int" where
  \<comment> \<open>\<^verbatim>\<open>int(x)\<close> on a finite float: truncation towards zero\<close>
  "py_int x = (if 0 \<le> x then \<lfloor>x\<rfloor> else \<lceil>x\<rceil>)"

text \<open>
  \<^verbatim>\<open>int(total_duration // self.segment_duration)\<close>: floor division of a float by an int,
  as CPython's \<^verbatim>\<open>float_floor_div\<close> computes it. The int is converted to a float first,
  which raises \<^verbatim>\<open>OverflowError\<close> when it is too large and rounds it when it has more than
  53 significant bits; a divisor of zero raises \<^verbatim>\<open>ZeroDivisionError\<close>. The quotient is then
  computed from the exact remainder \<^verbatim>\<open>fmod\<close>: the division \<^verbatim>\<open>(vx - mod) / wx\<close>, the
  correction by one when the remainder and the divisor differ in sign, and the snap to
  the nearest integral value. The result is not the floor of the exact quotient in
  general (\<^verbatim>\<open>1e17 // 3\<close> is \<open>33333333333333332\<close>); it is when the operands are integers
  of at most 53 bits.
\<close>

definition int_to_float :: "int \<Rightarrow> exn + real" where
  \<comment> \<open>the conversion of the int operand, which raises when the int does not fit a float\<close>
  "int_to_float k =
     (if 2 ^ 1024 \<le> \<bar>fl (of_int k)\<bar> then Inl OverflowError else Inr (float_of_int k))"

definition fmod :: "real \<Rightarrow> real \<Rightarrow> real" where
  \<comment> \<open>C's \<^verbatim>\<open>fmod\<close> for a divisor other than zero: exact, with the sign of the dividend\<close>
  "fmod x y = x - y * of_int (py_int (x / y))"

definition floordiv :: "real \<Rightarrow> int \<Rightarrow> exn + int" where
  "floordiv vx k =
     (case int_to_float k of
        Inl e \<Rightarrow> Inl e
      | Inr wx \<Rightarrow>
          if wx = 0 then Inl ZeroDivisionError
          else
            let md = fmod vx wx;
                q = fl (fl (vx - md) / wx);
                dv = (if md \<noteq> 0 \<and> (wx < 0) \<noteq> (md < 0) then fl (q - 1) else q);
                fd = (if dv \<noteq> 0
                      then (let f = of_int \<lfloor>dv\<rfloor>
                            in if 1 / 2 < fl (dv - f) then fl (f + 1) else f)
                      else 0)
            in Inr (py_int fd))"

definition floordiv_nonfinite :: "int \<Rightarrow> exn" where
  \<comment> \<open>the same line when \<^verbatim>\<open>total_duration\<close> is an infinity or NaN: the conversion of the
     divisor or a divisor of zero raises as above; otherwise the quotient is NaN, on
     which \<^verbatim>\<open>int\<close> raises \<^verbatim>\<open>ValueError\<close>\<close>
  "floordiv_nonfinite k =
     (case int_to_float k of
        Inl e \<Rightarrow> e
      | Inr wx \<Rightarrow> if wx = 0 then ZeroDivisionError else ValueError)"

text \<open>
  The value of \<^verbatim>\<open>duration\<close> in the loops is either the int \<^verbatim>\<open>self.segment_duration\<close> or
  the float \<^verbatim>\<open>remaining_time\<close>.
\<close>

datatype num = PyInt int | PyFloat real

fun num_val :: "num \<Rightarrow> real" where
  "num_val (PyInt k) = of_int k"
| "num_val (PyFloat x) = x"

section \<open>Python strings\<close>

text \<open>
  Strings are lists of characters with code points below 256. \<^verbatim>\<open>str.strip()\<close> and
  \<^verbatim>\<open>str.split()\<close> remove the characters for which \<^verbatim>\<open>str.isspace()\<close> holds: in this range
  the ASCII white space, the separators \<open>0x1C\<close> to \<open>0x1F\<close>, next line (\<open>0x85\<close>) and the
  no-break space (\<open>0xA0\<close>). \<^verbatim>\<open>int()\<close> skips less around a number: it does not skip the
  four separators.
\<close>

definition is_space :: "char \<Rightarrow> bool" where
  "is_space c \<longleftrightarrow> c \<in> set [CHR 0x09, CHR 0x0A, CHR 0x0B, CHR 0x0C, CHR 0x0D,
                             CHR 0x1C, CHR 0x1D, CHR 0x1E, CHR 0x1F, CHR '' '',
                             CHR 0x85, CHR 0xA0]"

definition is_int_space :: "char \<Rightarrow> bool" where
  "is_int_space c \<longleftrightarrow> c \<in> set [CHR 0x09, CHR 0x0A, CHR 0x0B, CHR 0x0C, CHR 0x0D,
                                 CHR '' '', CHR 0x85, CHR 0xA0]"

definition strip :: "string \<Rightarrow> string" where
  "strip s = rev (dropWhile is_space (rev (dropWhile is_space s)))"

fun split_on :: "char \<Rightarrow> string \<Rightarrow> string list" where
  \<comment> \<open>\<^verbatim>\<open>s.split(c)\<close> for a one-character separator\<close>
  "split_on c [] = [[]]"
| "split_on c (x # xs) =
     (if x = c then [] # split_on c xs
      else (case split_on c xs of [] \<Rightarrow> [[x]] | p # ps \<Rightarrow> (x # p) # ps))"

fun split_words :: "string \<Rightarrow> string \<Rightarrow> string list" where
  \<comment> \<open>\<^verbatim>\<open>s.split()\<close>: the maximal runs of non-space characters; the first argument is the
     word being read\<close>
  "split_words w [] = (if w = [] then [] else [w])"
| "split_words w (c # cs) =
     (if is_space c then (if w = [] then split_words [] cs else w # split_words [] cs)
      else split_words (w @ [c]) cs)"

definition split_ws :: "string \<Rightarrow> string list" where
  "split_ws s = split_words [] s"

definition digit_val :: "char \<Rightarrow> nat option" where
  "digit_val = map_of [(CHR ''0'', 0), (CHR ''1'', 1), (CHR ''2'', 2), (CHR ''3'', 3),
     (CHR ''4'', 4), (CHR ''5'', 5), (CHR ''6'', 6), (CHR ''7'', 7), (CHR ''8'', 8),
     (CHR ''9'', 9)]"

fun parse_digits :: "nat \<Rightarrow> string \<Rightarrow> nat option" where
  \<comment> \<open>the digits after the first one; single underscores may separate digits\<close>
  "parse_digits acc [] = Some acc"
| "parse_digits acc [c] =
     (case digit_val c of None \<Rightarrow> None | Some v \<Rightarrow> Some (acc * 10 + v))"
| "parse_digits acc (c # d # ds) =
     (if c = CHR ''_''
      then (case digit_val d of None \<Rightarrow> None | Some v \<Rightarrow> parse_digits (acc * 10 + v) ds)
      else (case digit_val c of None \<Rightarrow> None
            | Some v \<Rightarrow> parse_digits (acc * 10 + v) (d # ds)))"

definition parse_unsigned :: "string \<Rightarrow> nat option" where
  "parse_unsigned s =
     (case s of [] \<Rightarrow> None
      | c # cs \<Rightarrow> (case digit_val c of None \<Rightarrow> None | Some v \<Rightarrow> parse_digits v cs))"

definition max_str_digits :: nat where
  \<comment> \<open>the default of \<^verbatim>\<open>sys.get_int_max_str_digits()\<close>\<close>
  "max_str_digits = 4300"

definition int_of_string :: "string \<Rightarrow> int option" where
  \<comment> \<open>\<^verbatim>\<open>int(s)\<close>; \<open>None\<close> stands for \<^verbatim>\<open>ValueError\<close>, which is also raised for a number of
     more than \<open>max_str_digits\<close> digits\<close>
  "int_of_string s =
     (case rev (dropWhile is_int_space (rev (dropWhile is_int_space s))) of
        [] \<Rightarrow> None
      | c # cs \<Rightarrow>
          if max_str_digits < length (filter (\<lambda>d. digit_val d \<noteq> None) (c # cs)) then None
          else if c = CHR ''-'' then map_option (\<lambda>n. - int n) (parse_unsigned cs)
          else if c = CHR ''+'' then map_option int (parse_unsigned cs)
          else map_option int (parse_unsigned (c # cs)))"

definition digit_char :: "nat \<Rightarrow> char" where
  "digit_char d = ''0123456789'' ! d"

function str_nat :: "nat \<Rightarrow> string" where
  "str_nat n = (if n < 10 then [digit_char n] else str_nat (n div 10) @ [digit_char (n mod 10)])"
  by pat_completeness auto
termination
  by (relation "measure id") auto

declare str_nat.simps [simp del]

definition str_int :: "int \<Rightarrow> string" where
  \<comment> \<open>\<^verbatim>\<open>str(k)\<close> and \<^verbatim>\<open>f"{k}"\<close> for an int\<close>
  "str_int k = (if k < 0 then CHR ''-'' # str_nat (nat (- k)) else str_nat (nat k))"

definition fmt03d :: "nat \<Rightarrow> string" where
  \<comment> \<open>\<^verbatim>\<open>f"{i:03d}"\<close> for a loop index: zero-padded to at least three digits\<close>
  "fmt03d i = replicate (3 - length (str_nat i)) CHR ''0'' @ str_nat i"

definition str_opt :: "int option \<Rightarrow> string" where
  \<comment> \<open>\<^verbatim>\<open>f"{v}"\<close> for a value that is an int or \<^verbatim>\<open>None\<close>\<close>
  "str_opt v = (case v of None \<Rightarrow> ''None'' | Some k \<Rightarrow> str_int k)"

section \<open>The worker: data\<close>

text \<open>The fields of \<^verbatim>\<open>WorkerThread\<close> set by \<^verbatim>\<open>__init__\<close>.\<close>

record job =
  input_path :: string
  output_dir :: string
  segment_duration :: int
  mode :: string
  resolution :: string
  scale_crop :: bool

text \<open>
  What \<^verbatim>\<open>subprocess.run\<close> does: it raises, or it returns the exit code, the standard
  output and the standard error of the process.
\<close>

datatype proc = Raised exn | Exited int string string

text \<open>
  What \<^verbatim>\<open>float(s)\<close> does on the duration probe's output: it raises \<^verbatim>\<open>ValueError\<close>, or
  returns an infinity or NaN, or a finite float.
\<close>

datatype float_parse = Unparsable | Nonfinite | Finite real

text \<open>
  Everything outside the worker that \<^verbatim>\<open>run\<close> reads: the result of
  \<^verbatim>\<open>get_ffmpeg_path\<close>, the outcome of each subprocess (the two probes, and the encoder
  call of loop index \<open>i\<close>), and the library functions \<^verbatim>\<open>float\<close>, \<^verbatim>\<open>str\<close> on a float,
  \<^verbatim>\<open>os.path.basename\<close>, \<^verbatim>\<open>os.path.splitext\<close> and \<^verbatim>\<open>os.path.join\<close>.
\<close>

record env =
  get_ffmpeg_path :: "string option"
  run_duration :: proc
  run_resolution :: proc
  run_segment :: "nat \<Rightarrow> proc"
  float_of_string :: "string \<Rightarrow> float_parse"
  str_of_float :: "real \<Rightarrow> string"
  basename :: "string \<Rightarrow> string"
  splitext :: "string \<Rightarrow> string \<times> string"
  path_join :: "string \<Rightarrow> string \<Rightarrow> string"

text \<open>
  The signals the worker emits, in order, together with the subprocesses it starts. The
  texts of the messages are user-facing and are kept as constructors carrying the
  interpolated values. \<open>Encode i start duration cmd\<close> is the encoder call of one loop
  iteration (lines 127 and 178), with the values of \<^verbatim>\<open>i\<close>, \<^verbatim>\<open>start_time\<close> and
  \<^verbatim>\<open>duration\<close> at the call.
\<close>

datatype message =
    Probing
  | Original_resolution string
  | Target_resolution int int
  | Duration_info real int
  | Scaling_crop
  | Scaling_pad
  | Switching_to_precise
  | Fast_mode
  | Precise_mode
  | Creating_segment int int int num
  | Segment_warning int string
  | Segment_ready int

datatype failure =
    Ffmpeg_not_found
  | Duration_unavailable
  | Segment_failed int string
  | Unexpected exn

datatype event =
    Progress message
  | Error failure
  | Finished bool
  | Segment_progress int
  | Probe "string list"
  | Encode nat int num "string list"

text \<open>The local variables of \<^verbatim>\<open>run\<close> that the two loops read.\<close>

record locals =
  ffmpeg_path :: string
  filename :: string
  ext :: string
  total_duration :: real
  num_segments :: int
  scale_filter :: string

section \<open>The worker: geometry\<close>

definition parse_resolution :: "string \<Rightarrow> (int \<times> int) option" where
  \<comment> \<open>\<^verbatim>\<open>orig_width, orig_height = map(int, original_res.split('x'))\<close>; \<open>None\<close> when it raises\<close>
  "parse_resolution original_res =
     (case split_on CHR ''x'' original_res of
        [a, b] \<Rightarrow>
          (case int_of_string a of
             None \<Rightarrow> None
           | Some w \<Rightarrow> (case int_of_string b of None \<Rightarrow> None | Some h \<Rightarrow> Some (w, h)))
      | _ \<Rightarrow> None)"

definition calculate_target_resolution :: "string \<Rightarrow> string \<Rightarrow> exn + (int \<times> int) option" where
  "calculate_target_resolution original_res target_ratio =
     (if target_ratio = ''original'' then Inr None
      else
        let (orig_width, orig_height) =
              (case parse_resolution original_res of
                 Some p \<Rightarrow> p
               | None \<Rightarrow> (1920, 1080))
        in if target_ratio = ''9:16'' then
             (let target_height = min orig_height 1920
              in case truediv (target_height * 9) 16 of
                   Inl e \<Rightarrow> Inl e
                 | Inr q \<Rightarrow> Inr (Some (py_int q, target_height)))
           else if target_ratio = ''4:5'' then
             (let target_height = min orig_height 1350
              in case truediv (target_height * 4) 5 of
                   Inl e \<Rightarrow> Inl e
                 | Inr q \<Rightarrow> Inr (Some (py_int q, target_height)))
           else if target_ratio = ''1:1'' then
             (let target_size = min (min orig_width orig_height) 1080
              in Inr (Some (target_size, target_size)))
           else if target_ratio = ''16:9'' then
             (let target_width = min orig_width 1920
              in case truediv (target_width * 9) 16 of
                   Inl e \<Rightarrow> Inl e
                 | Inr q \<Rightarrow> Inr (Some (target_width, py_int q)))
           else Inr None)"

section \<open>The worker: the two loops\<close>

text \<open>
  Lines 98--108 and 144--154, the same in both loops: the start and the duration of
  segment \<open>i\<close>, or \<open>None\<close> for the \<^verbatim>\<open>break\<close>.
\<close>

definition segment_times :: "real \<Rightarrow> int \<Rightarrow> nat \<Rightarrow> (int \<times> num) option" where
  "segment_times total_dur seg i =
     (let start_time = int i * seg;
          remaining_time = float_sub_int total_dur start_time
      in if remaining_time \<le> 0 then None
         else if remaining_time < of_int seg then Some (start_time, PyFloat remaining_time)
         else Some (start_time, PyInt seg))"

definition str_num :: "env \<Rightarrow> num \<Rightarrow> string" where
  "str_num w d = (case d of PyInt k \<Rightarrow> str_int k | PyFloat x \<Rightarrow> str_of_float w x)"

definition filter_args :: "string \<Rightarrow> string list" where
  \<comment> \<open>\<^verbatim>\<open>(scale_filter.split() if scale_filter else [])\<close>\<close>
  "filter_args flt = (if flt \<noteq> [] then split_ws flt else [])"

definition fast_cmd :: "env \<Rightarrow> job \<Rightarrow> locals \<Rightarrow> nat \<Rightarrow> int \<Rightarrow> num \<Rightarrow> string list" where
  "fast_cmd w j l i start_time duration =
     [ffmpeg_path l @ ''ffmpeg'',
      ''-accurate_seek'',
      ''-ss'', str_int start_time,
      ''-i'', input_path j,
      ''-t'', str_num w duration,
      ''-c'', ''copy'',
      ''-map'', ''0:v'',
      ''-map'', ''0:a'']
     @ filter_args (scale_filter l)
     @ [path_join w (output_dir j) (filename l @ ''_'' @ fmt03d i @ ext l)]"

definition precise_cmd :: "env \<Rightarrow> job \<Rightarrow> locals \<Rightarrow> nat \<Rightarrow> int \<Rightarrow> num \<Rightarrow> string list" where
  "precise_cmd w j l i start_time duration =
     [ffmpeg_path l @ ''ffmpeg'',
      ''-accurate_seek'',
      ''-ss'', str_int start_time,
      ''-i'', input_path j,
      ''-t'', str_num w duration,
      ''-c:v'', ''libx264'',
      ''-c:a'', ''aac'',
      ''-preset'', ''medium'',
      ''-crf'', ''23'',
      ''-b:a'', ''192k'',
      ''-map'', ''0:v'',
      ''-map'', ''0:a'',
      ''-movflags'', ''+faststart'']
     @ filter_args (scale_filter l)
     @ [path_join w (output_dir j) (filename l @ ''_'' @ fmt03d i @ ''.mp4'')]"

definition creating :: "nat \<Rightarrow> int \<Rightarrow> num \<Rightarrow> event" where
  \<comment> \<open>lines 125 and 176: \<^verbatim>\<open>i+1\<close>, \<^verbatim>\<open>int(start_time)\<close>, \<^verbatim>\<open>int(start_time + duration)\<close>,
     \<^verbatim>\<open>duration\<close>\<close>
  "creating i start_time duration =
     Progress (Creating_segment (int i + 1) start_time
       (case duration of
          PyInt k \<Rightarrow> start_time + k
        | PyFloat x \<Rightarrow> py_int (int_add_float start_time x))
       duration)"

definition percent :: "nat \<Rightarrow> int \<Rightarrow> exn + int" where
  \<comment> \<open>\<^verbatim>\<open>int((i + 1) / num_segments * 100)\<close>\<close>
  "percent i n =
     (case truediv (int i + 1) n of
        Inl e \<Rightarrow> Inl e
      | Inr q \<Rightarrow> Inr (py_int (float_mul_int q 100)))"

text \<open>
  The loops run over \<^verbatim>\<open>range(num_segments)\<close>. Leaving a loop, by exhausting the range
  or by \<^verbatim>\<open>break\<close>, continues at line 191, which emits \<^verbatim>\<open>finished\<close>; a \<^verbatim>\<open>return\<close> or
  an exception does not.
\<close>

fun fast_loop :: "env \<Rightarrow> job \<Rightarrow> locals \<Rightarrow> nat list \<Rightarrow> event list" where
  "fast_loop w j l [] = [Finished True]"
| "fast_loop w j l (i # is) =
     (case segment_times (total_duration l) (segment_duration j) i of
        None \<Rightarrow> [Finished True]
      | Some (start_time, duration) \<Rightarrow>
          creating i start_time duration #
          Encode i start_time duration (fast_cmd w j l i start_time duration) #
          (case run_segment w i of
             Raised e \<Rightarrow> [Error (Unexpected e)]
           | Exited returncode out err \<Rightarrow>
               Progress (if returncode \<noteq> 0 then Segment_warning (int i + 1) err
                         else Segment_ready (int i + 1)) #
               (case percent i (num_segments l) of
                  Inl e \<Rightarrow> [Error (Unexpected e)]
                | Inr p \<Rightarrow>
                    Segment_progress p #
                    (if total_duration l \<le> of_int start_time then [Finished True]
                     else fast_loop w j l is))))"

fun precise_loop :: "env \<Rightarrow> job \<Rightarrow> locals \<Rightarrow> nat list \<Rightarrow> event list" where
  "precise_loop w j l [] = [Finished True]"
| "precise_loop w j l (i # is) =
     (case segment_times (total_duration l) (segment_duration j) i of
        None \<Rightarrow> [Finished True]
      | Some (start_time, duration) \<Rightarrow>
          creating i start_time duration #
          Encode i start_time duration (precise_cmd w j l i start_time duration) #
          (case run_segment w i of
             Raised e \<Rightarrow> [Error (Unexpected e)]
           | Exited returncode out err \<Rightarrow>
               if returncode \<noteq> 0 then [Error (Segment_failed (int i + 1) err)]
               else
                 Progress (Segment_ready (int i + 1)) #
                 (case percent i (num_segments l) of
                    Inl e \<Rightarrow> [Error (Unexpected e)]
                  | Inr p \<Rightarrow>
                      Segment_progress p #
                      (if total_duration l \<le> of_int start_time then [Finished True]
                       else precise_loop w j l is))))"

section \<open>The worker: \<^verbatim>\<open>run\<close>\<close>

definition duration_cmd :: "string \<Rightarrow> job \<Rightarrow> string list" where
  "duration_cmd fp j =
     [fp @ ''ffprobe'', ''-v'', ''error'', ''-show_entries'', ''format=duration'',
      ''-of'', ''default=noprint_wrappers=1:nokey=1'', input_path j]"

definition resolution_cmd :: "string \<Rightarrow> job \<Rightarrow> string list" where
  "resolution_cmd fp j =
     [fp @ ''ffprobe'', ''-v'', ''error'', ''-select_streams'', ''v:0'',
      ''-show_entries'', ''stream=width,height'',
      ''-of'', ''csv=s=x:p=0'', input_path j]"

definition make_scale_filter :: "job \<Rightarrow> (int \<times> int) option \<Rightarrow> string" where
  \<comment> \<open>lines 77--86: the value of \<^verbatim>\<open>scale_filter\<close>\<close>
  "make_scale_filter j target =
     (let tw = str_opt (map_option fst target); th = str_opt (map_option snd target)
      in if resolution j \<noteq> ''original'' then
           (if scale_crop j
            then ''-vf scale='' @ tw @ ''x'' @ th
                 @ '':force_original_aspect_ratio=increase,crop='' @ tw @ '':'' @ th
            else ''-vf scale='' @ tw @ '':'' @ th
                 @ '':force_original_aspect_ratio=decrease,pad='' @ tw @ '':'' @ th
                 @ '':(ow-iw)/2:(oh-ih)/2'')
         else [])"

definition scale_notices :: "job \<Rightarrow> event list" where
  \<comment> \<open>lines 78--90: the messages emitted while the filter is chosen\<close>
  "scale_notices j =
     (if resolution j \<noteq> ''original'' then
        [Progress (if scale_crop j then Scaling_crop else Scaling_pad)]
        @ (if mode j = ''fast'' then [Progress Switching_to_precise] else [])
      else [])"

definition effective_mode :: "job \<Rightarrow> string" where
  \<comment> \<open>the value of \<^verbatim>\<open>self.mode\<close> at line 93\<close>
  "effective_mode j =
     (if resolution j \<noteq> ''original'' \<and> mode j = ''fast'' then ''precise'' else mode j)"

definition encode :: "env \<Rightarrow> job \<Rightarrow> locals \<Rightarrow> event list" where
  \<comment> \<open>lines 93--191\<close>
  "encode w j l =
     (if effective_mode j = ''fast''
      then Progress Fast_mode # fast_loop w j l [0..<nat (num_segments l)]
      else Progress Precise_mode # precise_loop w j l [0..<nat (num_segments l)])"

definition original_resolution_of :: "int \<Rightarrow> string \<Rightarrow> string" where
  \<comment> \<open>line 64\<close>
  "original_resolution_of returncode out = (if returncode = 0 then strip out else ''1920x1080'')"

definition target_notice :: "(int \<times> int) option \<Rightarrow> event list" where
  \<comment> \<open>lines 70--71; \<^verbatim>\<open>None\<close> and \<^verbatim>\<open>0\<close> are false\<close>
  "target_notice target =
     (case target of
        Some (target_width, target_height) \<Rightarrow>
          if target_width \<noteq> 0 \<and> target_height \<noteq> 0
          then [Progress (Target_resolution target_width target_height)] else []
      | None \<Rightarrow> [])"

definition plan :: "env \<Rightarrow> job \<Rightarrow> string \<Rightarrow> string \<Rightarrow> string \<Rightarrow> float_parse \<Rightarrow> string \<Rightarrow> event list" where
  \<comment> \<open>lines 66--92, then the loops\<close>
  "plan w j fp fname ex parsed original_resolution =
     Progress (Original_resolution original_resolution) #
     (case calculate_target_resolution original_resolution (resolution j) of
        Inl e \<Rightarrow> [Error (Unexpected e)]
      | Inr target \<Rightarrow>
          target_notice target
          @ (case parsed of
               Unparsable \<Rightarrow> [Error (Unexpected ValueError)]
             | Nonfinite \<Rightarrow>
                 [Error (Unexpected (floordiv_nonfinite (segment_duration j)))]
             | Finite total_dur \<Rightarrow>
                 (case floordiv total_dur (segment_duration j) of
                    Inl e \<Rightarrow> [Error (Unexpected e)]
                  | Inr q \<Rightarrow>
                      Progress (Duration_info total_dur (q + 1)) #
                      scale_notices j @
                      encode w j
                        \<lparr>ffmpeg_path = fp, filename = fname, ext = ex,
                         total_duration = total_dur, num_segments = q + 1,
                         scale_filter = make_scale_filter j target\<rparr>)))"

text \<open>
  Line 38, \<^verbatim>\<open>if not ffmpeg_path\<close>, is true for \<^verbatim>\<open>None\<close> and for the empty string, which
  \<^verbatim>\<open>get_ffmpeg_path\<close> returns when \<^verbatim>\<open>ffmpeg\<close> is in the current directory or on the search
  path.
\<close>

definition run :: "env \<Rightarrow> job \<Rightarrow> event list" where
  "run w j =
     (let fname = fst (splitext w (basename w (input_path j)));
          ex = snd (splitext w (input_path j))
      in case get_ffmpeg_path w of
           None \<Rightarrow> [Error Ffmpeg_not_found]
         | Some fp \<Rightarrow>
             if fp = [] then [Error Ffmpeg_not_found]
             else
               Progress Probing #
               Probe (duration_cmd fp j) #
               (case run_duration w of
                  Raised e \<Rightarrow> [Error (Unexpected e)]
                | Exited returncode out err \<Rightarrow>
                    if returncode \<noteq> 0 then [Error Duration_unavailable]
                    else
                      (case float_of_string w (strip out) of
                         Unparsable \<Rightarrow> [Error (Unexpected ValueError)]
                       | parsed \<Rightarrow>
                           Probe (resolution_cmd fp j) #
                           (case run_resolution w of
                              Raised e \<Rightarrow> [Error (Unexpected e)]
                            | Exited rc res_out res_err \<Rightarrow>
                                plan w j fp fname ex parsed
                                  (original_resolution_of rc res_out)))))"

section \<open>Reading a trace\<close>

fun executed :: "event list \<Rightarrow> (nat \<times> int \<times> num) list" where
  \<comment> \<open>the segments whose encoder call was made: index, start, duration\<close>
  "executed [] = []"
| "executed (Encode i s d cmd # es) = (i, s, d) # executed es"
| "executed (e # es) = executed es"

fun commands :: "event list \<Rightarrow> string list list" where
  \<comment> \<open>the argument lists of the encoder calls\<close>
  "commands [] = []"
| "commands (Encode i s d cmd # es) = cmd # commands es"
| "commands (e # es) = commands es"

fun percentages :: "event list \<Rightarrow> int list" where
  \<comment> \<open>the values of the \<^verbatim>\<open>segment_progress\<close> signal\<close>
  "percentages [] = []"
| "percentages (Segment_progress p # es) = p # percentages es"
| "percentages (e # es) = percentages es"

section \<open>Describing a run\<close>

text \<open>
  The definitions of this section are not part of the program: they name the conditions
  and the expected traces that the theorems below are about.
\<close>

fun exit_code :: "proc \<Rightarrow> int option" where
  "exit_code (Exited returncode out err) = Some returncode"
| "exit_code (Raised e) = None"

fun std_out :: "proc \<Rightarrow> string" where
  "std_out (Exited returncode out err) = out"
| "std_out (Raised e) = []"

fun std_err :: "proc \<Rightarrow> string" where
  "std_err (Exited returncode out err) = err"
| "std_err (Raised e) = []"

definition resolution_read :: "env \<Rightarrow> string" where
  \<comment> \<open>the value of \<^verbatim>\<open>original_resolution\<close> when the resolution probe returns\<close>
  "resolution_read w =
     (case run_resolution w of
        Exited returncode out err \<Rightarrow> original_resolution_of returncode out
      | Raised e \<Rightarrow> [])"

definition segments_planned :: "real \<Rightarrow> int \<Rightarrow> int" where
  \<comment> \<open>the value of \<^verbatim>\<open>num_segments\<close> when line 73 does not raise\<close>
  "segments_planned td seg = (case floordiv td seg of Inr q \<Rightarrow> q + 1 | Inl e \<Rightarrow> 0)"

definition ready :: "env \<Rightarrow> job \<Rightarrow> string \<Rightarrow> real \<Rightarrow> (int \<times> int) option \<Rightarrow> bool" where
  \<comment> \<open>the run reaches the loops: \<^verbatim>\<open>ffmpeg\<close> is found in the directory \<open>fp\<close>, the duration probe exits
     with 0 and prints the finite duration \<open>td\<close>, the resolution probe returns, the
     target resolution is \<open>target\<close>, and the floor division of line 73 does not raise\<close>
  "ready w j fp td target \<longleftrightarrow>
     get_ffmpeg_path w = Some fp \<and> fp \<noteq> [] \<and>
     exit_code (run_duration w) = Some 0 \<and>
     float_of_string w (strip (std_out (run_duration w))) = Finite td \<and>
     exit_code (run_resolution w) \<noteq> None \<and>
     calculate_target_resolution (resolution_read w) (resolution j) = Inr target \<and>
     \<not> isl (floordiv td (segment_duration j))"

definition the_locals :: "env \<Rightarrow> job \<Rightarrow> string \<Rightarrow> real \<Rightarrow> (int \<times> int) option \<Rightarrow> locals" where
  "the_locals w j fp td target =
     \<lparr>ffmpeg_path = fp,
      filename = fst (splitext w (basename w (input_path j))),
      ext = snd (splitext w (input_path j)),
      total_duration = td,
      num_segments = segments_planned td (segment_duration j),
      scale_filter = make_scale_filter j target\<rparr>"

definition preamble :: "env \<Rightarrow> job \<Rightarrow> string \<Rightarrow> real \<Rightarrow> (int \<times> int) option \<Rightarrow> event list" where
  \<comment> \<open>what a run that reaches the loops emits before line 93\<close>
  "preamble w j fp td target =
     [Progress Probing, Probe (duration_cmd fp j), Probe (resolution_cmd fp j),
      Progress (Original_resolution (resolution_read w))]
     @ target_notice target
     @ [Progress (Duration_info td (segments_planned td (segment_duration j)))]
     @ scale_notices j"

definition segment_count :: "real \<Rightarrow> int \<Rightarrow> nat" where
  \<comment> \<open>the number of segments with a start before the end of the video\<close>
  "segment_count td seg = nat \<lceil>td / of_int seg\<rceil>"

definition duration_at :: "real \<Rightarrow> int \<Rightarrow> nat \<Rightarrow> num" where
  \<comment> \<open>the duration that lines 101--108 give segment \<open>i\<close> when it has one\<close>
  "duration_at td seg i =
     (if float_sub_int td (int i * seg) < of_int seg
      then PyFloat (float_sub_int td (int i * seg)) else PyInt seg)"

definition pct :: "nat \<Rightarrow> int \<Rightarrow> int" where
  \<comment> \<open>the value of \<^verbatim>\<open>int((i + 1) / num_segments * 100)\<close> when the division does not raise\<close>
  "pct i n = py_int (float_mul_int (fl (of_int (int i + 1) / of_int n)) 100)"

definition fast_iteration :: "env \<Rightarrow> job \<Rightarrow> locals \<Rightarrow> nat \<Rightarrow> event list" where
  \<comment> \<open>one pass through the body of the first loop whose encoder call returns\<close>
  "fast_iteration w j l i =
     (let s = int i * segment_duration j;
          d = duration_at (total_duration l) (segment_duration j) i
      in [creating i s d,
          Encode i s d (fast_cmd w j l i s d),
          Progress (if exit_code (run_segment w i) \<noteq> Some 0
                    then Segment_warning (int i + 1) (std_err (run_segment w i))
                    else Segment_ready (int i + 1)),
          Segment_progress (pct i (num_segments l))])"

definition precise_iteration :: "env \<Rightarrow> job \<Rightarrow> locals \<Rightarrow> nat \<Rightarrow> event list" where
  \<comment> \<open>one pass through the body of the second loop whose encoder call exits with 0\<close>
  "precise_iteration w j l i =
     (let s = int i * segment_duration j;
          d = duration_at (total_duration l) (segment_duration j) i
      in [creating i s d,
          Encode i s d (precise_cmd w j l i s d),
          Progress (Segment_ready (int i + 1)),
          Segment_progress (pct i (num_segments l))])"

definition precise_failure :: "env \<Rightarrow> job \<Rightarrow> locals \<Rightarrow> nat \<Rightarrow> event list" where
  \<comment> \<open>the pass through the body of the second loop whose encoder call exits with a
     code other than 0\<close>
  "precise_failure w j l i =
     (let s = int i * segment_duration j;
          d = duration_at (total_duration l) (segment_duration j) i
      in [creating i s d,
          Encode i s d (precise_cmd w j l i s d),
          Error (Segment_failed (int i + 1) (std_err (run_segment w i)))])"

fun is_encode :: "event \<Rightarrow> bool" where
  "is_encode (Encode i s d cmd) = True"
| "is_encode e = False"

fun early :: "event \<Rightarrow> bool" where
  \<comment> \<open>the events of lines 39--71\<close>
  "early (Progress Probing) = True"
| "early (Progress (Original_resolution s)) = True"
| "early (Progress (Target_resolution tw th)) = True"
| "early (Probe cmd) = True"
| "early (Error f) = True"
| "early e = False"

fun hide_resolution :: "event \<Rightarrow> event" where
  \<comment> \<open>blanks the text of the message of line 66, which echoes the probe's output\<close>
  "hide_resolution (Progress (Original_resolution s)) = Progress (Original_resolution [])"
| "hide_resolution e = e"

fun is_error :: "event \<Rightarrow> bool" where
  "is_error (Error f) = True"
| "is_error e = False"

fun is_finished :: "event \<Rightarrow> bool" where
  "is_finished (Finished b) = True"
| "is_finished e = False"

fun milestones :: "event list \<Rightarrow> (nat + int) list" where
  \<comment> \<open>the encoder calls (by index) and the percentage events, in the order of the trace\<close>
  "milestones [] = []"
| "milestones (Encode i s d cmd # es) = Inl i # milestones es"
| "milestones (Segment_progress p # es) = Inr p # milestones es"
| "milestones (e # es) = milestones es"

fun warnings :: "event list \<Rightarrow> int list" where
  \<comment> \<open>the segment numbers of the warnings of the first loop\<close>
  "warnings [] = []"
| "warnings (Progress (Segment_warning k err) # es) = k # warnings es"
| "warnings (e # es) = warnings es"

section \<open>Sample inputs\<close>

definition demo_env :: "string \<Rightarrow> real \<Rightarrow> (nat \<Rightarrow> proc) \<Rightarrow> env" where
  \<comment> \<open>\<^verbatim>\<open>ffmpeg\<close> beside the program, a duration probe that prints \<open>out\<close>, read as \<open>td\<close>, and
     a source of 1920 by 1080\<close>
  "demo_env out td segs =
     \<lparr>get_ffmpeg_path = Some ''/opt/splitter/'',
      run_duration = Exited 0 (out @ [CHR 0x0A]) '''',
      run_resolution = Exited 0 (''1920x1080'' @ [CHR 0x0A]) '''',
      run_segment = segs,
      float_of_string = (\<lambda>s. if s = out then Finite td else Unparsable),
      str_of_float = (\<lambda>x. str_int \<lfloor>x\<rfloor> @ ''.0''),
      basename = (\<lambda>s. s),
      splitext = (\<lambda>s. (takeWhile (\<lambda>c. c \<noteq> CHR ''.'') s, dropWhile (\<lambda>c. c \<noteq> CHR ''.'') s)),
      path_join = (\<lambda>a b. a @ ''/'' @ b)\<rparr>"

definition all_ok :: "nat \<Rightarrow> proc" where
  "all_ok i = Exited 0 '''' ''''"

definition second_fails :: "nat \<Rightarrow> proc" where
  \<comment> \<open>the encoder call of segment 2 (index 1) exits with 1\<close>
  "second_fails i = (if i = 1 then Exited 1 '''' ''broken'' else Exited 0 '''' '''')"

definition demo_job :: "string \<Rightarrow> string \<Rightarrow> job" where
  "demo_job m r =
     \<lparr>input_path = ''clip.mkv'', output_dir = ''clip'', segment_duration = 60,
      mode = m, resolution = r, scale_crop = True\<rparr>"

section \<open>Facts about rounding\<close>

lemma ilog2_base: "n < 2 \<Longrightarrow> ilog2 n = 0"
  by (simp add: ilog2.simps)

lemma ilog2_step: "2 \<le> n \<Longrightarrow> ilog2 n = 1 + ilog2 (n div 2)"
  by (subst ilog2.simps) simp

lemmas fl_eval = fl_def lg2_def round_half_even_def Let_def ilog2_base ilog2_step

lemma ilog2_nonneg: "0 \<le> ilog2 n"
  by (induction n rule: ilog2.induct) (subst ilog2.simps, simp)

lemma ilog2_bounds:
  "1 \<le> n \<Longrightarrow> 2 ^ nat (ilog2 n) \<le> n \<and> n < 2 * 2 ^ nat (ilog2 n)"
proof (induction n rule: ilog2.induct)
  case (1 n)
  show ?case
  proof (cases "n < 2")
    case True
    with "1.prems" have "n = 1" by simp
    then show ?thesis by (simp add: ilog2_base)
  next
    case False
    then have ih: "2 ^ nat (ilog2 (n div 2)) \<le> n div 2 \<and> n div 2 < 2 * 2 ^ nat (ilog2 (n div 2))"
      using "1.IH" by simp
    have e: "nat (ilog2 n) = Suc (nat (ilog2 (n div 2)))"
      using False ilog2_nonneg [of "n div 2"] by (simp add: ilog2_step nat_add_distrib)
    from ih show ?thesis unfolding e by (simp; presburger)
  qed
qed

lemma lg2_bounds:
  assumes "0 < x"
  shows "2 powi lg2 x \<le> x \<and> x < 2 powi (lg2 x + 1)"
proof (cases "1 \<le> x")
  case True
  define n where "n = \<lfloor>x\<rfloor>"
  have n1: "1 \<le> n" using True by (simp add: n_def)
  define k where "k = nat (ilog2 n)"
  have lg: "lg2 x = int k" using True ilog2_nonneg [of n] by (simp add: lg2_def n_def k_def)
  from ilog2_bounds [OF n1] have b: "2 ^ k \<le> n" "n < 2 * 2 ^ k" by (simp_all add: k_def)
  have "real_of_int (2 ^ k) \<le> real_of_int n" using b(1) of_int_le_iff by blast
  also have "\<dots> \<le> x" by (simp add: n_def)
  finally have lo: "2 ^ k \<le> x" by simp
  have "n + 1 \<le> 2 * 2 ^ k" using b(2) by simp
  then have "real_of_int (n + 1) \<le> real_of_int (2 * 2 ^ k)" using of_int_le_iff by blast
  moreover have "x < real_of_int (n + 1)" by (simp add: n_def)
  ultimately have hi: "x < 2 * 2 ^ k" by simp
  have "2 powi (int k + 1) = (2::real) * 2 ^ k"
    by (simp add: power_int_add)
  with lo hi show ?thesis by (simp add: lg)
next
  case False
  define y where "y = 1 / x"
  have y1: "1 < y" using False assms by (simp add: y_def)
  define m where "m = \<lceil>y\<rceil> - 1"
  have m1: "1 \<le> m" using y1 by (simp add: m_def less_ceiling_iff)
  define k where "k = nat (ilog2 m)"
  have lg: "lg2 x = - (1 + int k)"
    using False ilog2_nonneg [of m] by (simp add: lg2_def m_def y_def k_def)
  from ilog2_bounds [OF m1] have b: "2 ^ k \<le> m" "m < 2 * 2 ^ k" by (simp_all add: k_def)
  have "real_of_int (2 ^ k) \<le> real_of_int m" using b(1) of_int_le_iff by blast
  also have "\<dots> < y" by (simp add: m_def) linarith
  finally have lo: "2 ^ k < y" by simp
  have "m + 1 \<le> 2 * 2 ^ k" using b(2) by simp
  then have "real_of_int (m + 1) \<le> real_of_int (2 * 2 ^ k)" using of_int_le_iff by blast
  moreover have "y \<le> real_of_int (m + 1)" by (simp add: m_def)
  ultimately have hi: "y \<le> 2 * 2 ^ k" by simp
  have "(2::real) powi (1 + int k) = 2 * 2 ^ k"
    by (simp add: power_int_add)
  then have p1: "2 powi (- (1 + int k)) = 1 / ((2::real) * 2 ^ k)"
    using power_int_minus_divide [of "2::real" "1 + int k"] by simp
  have p2: "2 powi (- (1 + int k) + 1) = 1 / ((2::real) ^ k)"
    by (simp add: power_int_minus_divide)
  have "1 / (2 * 2 ^ k) \<le> x"
    using hi assms by (simp add: y_def field_simps)
  moreover have "x < 1 / 2 ^ k"
    using lo assms by (simp add: y_def field_simps)
  ultimately show ?thesis unfolding lg p1 p2 by blast
qed

lemma round_half_even_of_int: "round_half_even (of_int k) = k"
  by (simp add: round_half_even_def)

lemma round_half_even_mono: "a \<le> b \<Longrightarrow> round_half_even a \<le> round_half_even b"
proof -
  assume ab: "a \<le> b"
  have fm: "\<lfloor>a\<rfloor> \<le> \<lfloor>b\<rfloor>" using ab by (rule floor_mono)
  show ?thesis
  proof (cases "\<lfloor>a\<rfloor> = \<lfloor>b\<rfloor>")
    case True
    then show ?thesis using ab
      by (auto simp: round_half_even_def Let_def)
  next
    case False
    with fm have "\<lfloor>a\<rfloor> + 1 \<le> \<lfloor>b\<rfloor>" by simp
    moreover have "round_half_even a \<le> \<lfloor>a\<rfloor> + 1"
      by (simp add: round_half_even_def Let_def)
    moreover have "\<lfloor>b\<rfloor> \<le> round_half_even b"
      by (simp add: round_half_even_def Let_def)
    ultimately show ?thesis by linarith
  qed
qed

lemma round_half_even_error: "\<bar>of_int (round_half_even y) - y\<bar> \<le> 1 / 2"
proof -
  have "of_int \<lfloor>y\<rfloor> \<le> y" "y < of_int \<lfloor>y\<rfloor> + 1" by linarith+
  then show ?thesis
    by (auto simp: round_half_even_def Let_def abs_le_iff)
qed

lemma scaled_bounds:
  assumes "0 < x"
  shows "2 ^ 52 \<le> x / 2 powi (lg2 x - 52) \<and> x / 2 powi (lg2 x - 52) < 2 ^ 53"
proof -
  have p: "(2::real) powi (lg2 x - 52) = 2 powi lg2 x / 2 ^ 52"
    by (simp add: power_int_diff)
  have q: "(2::real) powi (lg2 x + 1) = 2 powi lg2 x * 2"
    by (simp add: power_int_add)
  have pos: "0 < (2::real) powi lg2 x" by simp
  from lg2_bounds [OF assms] have "2 powi lg2 x \<le> x" "x < 2 powi lg2 x * 2"
    by (simp_all add: q)
  then show ?thesis
    unfolding p using pos by (simp add: field_simps)
qed

lemma fl_pos_eq:
  "0 < x \<Longrightarrow> fl x = of_int (round_half_even (x / 2 powi (lg2 x - 52))) * 2 powi (lg2 x - 52)"
  by (simp add: fl_def Let_def)

lemma fl_minus: "fl (- x) = - fl x"
  by (simp add: fl_def Let_def sgn_minus)

lemma fl_zero: "fl 0 = 0"
  by (simp add: fl_def)

lemma mantissa_bounds:
  assumes "0 < x"
  shows "2 ^ 52 \<le> round_half_even (x / 2 powi (lg2 x - 52))"
    and "round_half_even (x / 2 powi (lg2 x - 52)) \<le> 2 ^ 53"
proof -
  let ?y = "x / 2 powi (lg2 x - 52)"
  from scaled_bounds [OF assms] have b: "of_int (2 ^ 52) \<le> ?y" "?y \<le> of_int (2 ^ 53)"
    by simp_all
  from round_half_even_mono [OF b(1)] show "2 ^ 52 \<le> round_half_even ?y"
    by (simp only: round_half_even_of_int)
  from round_half_even_mono [OF b(2)] show "round_half_even ?y \<le> 2 ^ 53"
    by (simp only: round_half_even_of_int)
qed

lemma fl_pos_bounds:
  assumes "0 < x"
  shows "2 powi lg2 x \<le> fl x" and "fl x \<le> 2 powi (lg2 x + 1)"
proof -
  let ?s = "(2::real) powi (lg2 x - 52)"
  let ?m = "round_half_even (x / ?s)"
  have s: "0 < ?s" by simp
  have p: "(2::real) powi lg2 x = 2 ^ 52 * ?s"
    by (simp add: power_int_diff)
  have q: "(2::real) powi (lg2 x + 1) = 2 ^ 53 * ?s"
    by (simp add: power_int_diff power_int_add)
  from mantissa_bounds [OF assms]
  have "real_of_int (2 ^ 52) \<le> real_of_int ?m" "real_of_int ?m \<le> real_of_int (2 ^ 53)"
    using of_int_le_iff by blast+
  then have "2 ^ 52 * ?s \<le> of_int ?m * ?s" "of_int ?m * ?s \<le> 2 ^ 53 * ?s"
    using s by simp_all
  then show "2 powi lg2 x \<le> fl x" and "fl x \<le> 2 powi (lg2 x + 1)"
    unfolding p q fl_pos_eq [OF assms] by simp_all
qed

lemma fl_pos: "0 < x \<Longrightarrow> 0 < fl x"
proof -
  assume x: "0 < x"
  have "0 < (2::real) powi lg2 x" by simp
  with fl_pos_bounds(1) [OF x] show ?thesis by linarith
qed

lemma lg2_mono:
  assumes "0 < x" "x \<le> y"
  shows "lg2 x \<le> lg2 y"
proof (rule ccontr)
  assume "\<not> lg2 x \<le> lg2 y"
  then have "lg2 y + 1 \<le> lg2 x" by simp
  then have "(2::real) powi (lg2 y + 1) \<le> 2 powi lg2 x"
    by (intro power_int_increasing) simp_all
  moreover have "2 powi lg2 x \<le> x" using lg2_bounds [OF assms(1)] by simp
  moreover have "y < 2 powi (lg2 y + 1)" using lg2_bounds [of y] assms by simp
  ultimately show False using assms(2) by linarith
qed

lemma fl_mono_pos:
  assumes "0 < x" "x \<le> y"
  shows "fl x \<le> fl y"
proof -
  have y: "0 < y" using assms by simp
  show ?thesis
  proof (cases "lg2 x = lg2 y")
    case True
    let ?s = "(2::real) powi (lg2 y - 52)"
    have s: "0 < ?s" by simp
    have "x / ?s \<le> y / ?s" using assms(2) s by (simp add: divide_right_mono)
    then have "round_half_even (x / ?s) \<le> round_half_even (y / ?s)"
      by (rule round_half_even_mono)
    then have "real_of_int (round_half_even (x / ?s)) * ?s \<le> real_of_int (round_half_even (y / ?s)) * ?s"
      using s by simp
    then show ?thesis
      unfolding fl_pos_eq [OF assms(1)] fl_pos_eq [OF y] True .
  next
    case False
    with lg2_mono [OF assms] have "lg2 x + 1 \<le> lg2 y" by simp
    then have "(2::real) powi (lg2 x + 1) \<le> 2 powi lg2 y"
      by (intro power_int_increasing) simp_all
    with fl_pos_bounds(2) [OF assms(1)] fl_pos_bounds(1) [OF y]
    show ?thesis by linarith
  qed
qed

lemma fl_mono: "x \<le> y \<Longrightarrow> fl x \<le> fl y"
proof -
  assume xy: "x \<le> y"
  consider "0 < x" | "x = 0" | "x < 0" by linarith
  then show ?thesis
  proof cases
    case 1
    then show ?thesis using xy by (rule fl_mono_pos)
  next
    case 2
    show ?thesis
    proof (cases "y = 0")
      case True
      then show ?thesis using 2 by simp
    next
      case False
      then have "0 < y" using 2 xy by simp
      then show ?thesis using fl_pos [of y] 2 by (simp add: fl_zero)
    qed
  next
    case 3
    then have nx: "0 < fl (- x)" by (intro fl_pos) simp
    consider "0 < y" | "y = 0" | "y < 0" by linarith
    then show ?thesis
    proof cases
      case 1
      then show ?thesis using fl_pos [of y] nx by (simp add: fl_minus)
    next
      case 2
      then show ?thesis using nx by (simp add: fl_minus fl_zero)
    next
      case 3
      then have "fl (- y) \<le> fl (- x)" using xy by (intro fl_mono_pos) simp_all
      then show ?thesis by (simp add: fl_minus)
    qed
  qed
qed

lemma fl_error:
  "\<bar>fl x - x\<bar> \<le> \<bar>x\<bar> / 2 ^ 53"
proof -
  have pos: "\<bar>fl x - x\<bar> \<le> x / 2 ^ 53" if x: "0 < x" for x
  proof -
    let ?s = "(2::real) powi (lg2 x - 52)"
    let ?y = "x / ?s"
    have s: "0 < ?s" by simp
    have xs: "x = ?y * ?s" by simp
    have "fl x - x = (of_int (round_half_even ?y) - ?y) * ?s"
      unfolding fl_pos_eq [OF x] by (simp add: algebra_simps)
    then have "\<bar>fl x - x\<bar> = \<bar>of_int (round_half_even ?y) - ?y\<bar> * ?s"
      using s by (simp add: abs_mult)
    also have "\<dots> \<le> 1 / 2 * ?s"
      using round_half_even_error [of ?y] s by (intro mult_right_mono) simp_all
    also have "\<dots> \<le> x / 2 ^ 53"
    proof -
      have "2 ^ 52 * ?s \<le> x" using scaled_bounds [OF x] s by (simp add: field_simps)
      then show ?thesis by simp
    qed
    finally show ?thesis .
  qed
  consider "0 < x" | "x = 0" | "x < 0" by linarith
  then show ?thesis
  proof cases
    case 1
    then show ?thesis using pos [of x] by simp
  next
    case 2
    then show ?thesis by (simp add: fl_zero)
  next
    case 3
    then have "\<bar>fl (- x) - (- x)\<bar> \<le> (- x) / 2 ^ 53" by (intro pos) simp
    moreover have "\<bar>fl (- x) - (- x)\<bar> = \<bar>fl x - x\<bar>" by (simp add: fl_minus)
    ultimately show ?thesis using 3 by simp
  qed
qed

lemma fl_of_int_pos:
  assumes "0 < k" "k < 2 ^ 53"
  shows "fl (of_int k) = of_int k"
proof -
  let ?x = "real_of_int k"
  have x: "0 < ?x" using assms by simp
  have "lg2 ?x < 53"
  proof (rule ccontr)
    assume "\<not> lg2 ?x < 53"
    then have "53 \<le> lg2 ?x" by simp
    then have "(2::real) powi 53 \<le> 2 powi lg2 ?x"
      by (intro power_int_increasing) simp_all
    moreover have "2 powi lg2 ?x \<le> ?x" using lg2_bounds [OF x] by simp
    moreover have "?x < 2 ^ 53"
    proof -
      have "real_of_int k < real_of_int (2 ^ 53)" using assms(2) of_int_less_iff by blast
      then show ?thesis by simp
    qed
    ultimately show False by simp
  qed
  define d where "d = nat (52 - lg2 ?x)"
  have d: "lg2 ?x - 52 = - int d" using \<open>lg2 ?x < 53\<close> by (simp add: d_def)
  have "?x / 2 powi (- int d) = of_int (k * 2 ^ d)"
    by (simp add: power_int_minus field_simps)
  then have "round_half_even (?x / 2 powi (- int d)) = k * 2 ^ d"
    by (simp only: round_half_even_of_int)
  then show ?thesis
    unfolding fl_pos_eq [OF x] d by (simp add: power_int_minus field_simps)
qed

lemma fl_of_int:
  assumes "\<bar>k\<bar> \<le> 2 ^ 53"
  shows "fl (of_int k) = of_int k"
proof -
  have big: "fl (2 ^ 53) = 2 ^ 53" by (simp add: fl_eval)
  consider "k = 0" | "0 < k" "k < 2 ^ 53" | "k = 2 ^ 53" | "k < 0" "- k < 2 ^ 53" | "k = - (2 ^ 53)"
    using assms by linarith
  then show ?thesis
  proof cases
    case 1 then show ?thesis by (simp add: fl_zero)
  next
    case 2 then show ?thesis by (rule fl_of_int_pos)
  next
    case 3 then show ?thesis using big by simp
  next
    case 4
    then have "fl (of_int (- k)) = of_int (- k)" by (intro fl_of_int_pos) simp_all
    then show ?thesis using fl_minus [of "of_int k"] by simp
  next
    case 5 then show ?thesis using big fl_minus [of "2 ^ 53"] by simp
  qed
qed

section \<open>Facts about the arithmetic of the worker\<close>

lemma fl_one: "fl 1 = 1"
  using fl_of_int [of 1] by simp

lemma fl_hundred: "fl 100 = 100"
  using fl_of_int [of 100] by simp

lemma fl_nonneg: "0 \<le> x \<Longrightarrow> 0 \<le> fl x"
  using fl_mono [of 0 x] by (simp add: fl_zero)

lemma fl_le_zero_iff: "fl x \<le> 0 \<longleftrightarrow> x \<le> 0"
proof
  assume "fl x \<le> 0"
  then show "x \<le> 0" using fl_pos [of x] by (cases "0 < x") simp_all
next
  assume "x \<le> 0"
  then show "fl x \<le> 0" using fl_mono [of x 0] by (simp add: fl_zero)
qed

lemma py_int_mono: "x \<le> y \<Longrightarrow> py_int x \<le> py_int y"
proof -
  assume xy: "x \<le> y"
  have c: "\<lceil>x\<rceil> \<le> \<lceil>y\<rceil>" and f: "\<lfloor>x\<rfloor> \<le> \<lfloor>y\<rfloor>"
    using xy by (simp_all add: ceiling_mono floor_mono)
  show ?thesis
  proof (cases "0 \<le> x")
    case True
    then show ?thesis using xy f by (simp add: py_int_def)
  next
    case False
    then have x0: "\<lceil>x\<rceil> \<le> 0" by (simp add: ceiling_le_iff)
    show ?thesis
    proof (cases "0 \<le> y")
      case True
      then have "0 \<le> \<lfloor>y\<rfloor>" by simp
      moreover have "py_int x = \<lceil>x\<rceil>" "py_int y = \<lfloor>y\<rfloor>"
        using True False by (simp_all add: py_int_def)
      ultimately show ?thesis using x0 by linarith
    next
      case y: False
      then show ?thesis using c False by (simp add: py_int_def)
    qed
  qed
qed

lemma truediv_floor:
  assumes "0 \<le> a" "0 < b" "a < 2 ^ 53"
  shows "truediv a b = Inr (fl (of_int a / of_int b))"
    and "py_int (fl (of_int a / of_int b)) = a div b"
proof -
  let ?x = "real_of_int a / real_of_int b"
  let ?k = "a div b"
  have b: "0 < real_of_int b" using assms(2) by simp
  have x0: "0 \<le> ?x" using assms by simp
  have k0: "0 \<le> ?k" using assms by (simp add: pos_imp_zdiv_nonneg_iff)
  have "?k \<le> a" using zdiv_mono2 [of a 1 b] assms by simp
  then have kb: "\<bar>?k\<bar> \<le> 2 ^ 53" using k0 assms(3) by simp
  have fk: "\<lfloor>?x\<rfloor> = ?k" by (rule floor_divide_of_int_eq)
  have "of_int ?k \<le> ?x" using fk by (metis of_int_floor_le)
  then have "fl (of_int ?k) \<le> fl ?x" by (rule fl_mono)
  then have lo: "of_int ?k \<le> fl ?x" using fl_of_int [OF kb] by simp
  have "a = ?k * b + a mod b" by simp
  moreover have "a mod b \<le> b - 1" using assms(2) by (simp add: zle_diff1_eq)
  ultimately have "a \<le> ?k * b + b - 1" by linarith
  then have "real_of_int a \<le> real_of_int (?k * b + b - 1)" using of_int_le_iff by blast
  then have xle: "?x \<le> of_int ?k + 1 - 1 / of_int b"
    using b by (simp add: field_simps)
  have "real_of_int a < real_of_int (2 ^ 53)" using assms(3) of_int_less_iff by blast
  then have "?x / 2 ^ 53 < 1 / of_int b"
    using b by (simp add: field_simps)
  moreover have "fl ?x - ?x \<le> ?x / 2 ^ 53"
  proof -
    have "\<bar>fl ?x - ?x\<bar> \<le> \<bar>?x\<bar> / 2 ^ 53" by (rule fl_error)
    then show ?thesis unfolding abs_of_nonneg [OF x0] by linarith
  qed
  ultimately have hi: "fl ?x < of_int ?k + 1" using xle by linarith
  have f0: "0 \<le> fl ?x" using x0 by (rule fl_nonneg)
  have "\<lfloor>fl ?x\<rfloor> = ?k" using lo hi by (simp add: floor_unique)
  then show "py_int (fl ?x) = ?k" using f0 by (simp add: py_int_def)
  have "fl ?x < 2 ^ 53 + 1"
  proof -
    have "real_of_int ?k \<le> real_of_int (2 ^ 53)" using kb k0 of_int_le_iff by (metis abs_of_nonneg)
    then show ?thesis using hi by simp
  qed
  moreover have "(2::real) ^ 53 + 1 \<le> 2 ^ 1024" by simp
  ultimately have "\<bar>fl ?x\<bar> < 2 ^ 1024" using f0 by linarith
  then show "truediv a b = Inr (fl ?x)" using assms(2) by (simp add: truediv_def)
qed

lemma percent_ok:
  assumes "int i + 1 \<le> n"
  shows "percent i n = Inr (pct i n)"
proof -
  let ?x = "real_of_int (int i + 1) / real_of_int n"
  have n: "0 < n" using assms by linarith
  have "0 \<le> ?x" using n by simp
  then have f0: "0 \<le> fl ?x" by (rule fl_nonneg)
  have "?x \<le> 1" using assms n by (simp add: field_simps)
  then have "fl ?x \<le> 1" using fl_mono [of ?x 1] by (simp add: fl_one)
  then have "\<bar>fl ?x\<bar> < 2 ^ 1024" using f0 by simp
  then have "truediv (int i + 1) n = Inr (fl ?x)" using n by (simp add: truediv_def)
  then show ?thesis by (simp add: percent_def pct_def)
qed

lemma pct_mono:
  assumes "0 < n" "i \<le> k"
  shows "pct i n \<le> pct k n"
proof -
  have "real_of_int (int i + 1) / real_of_int n \<le> real_of_int (int k + 1) / real_of_int n"
    using assms by (simp add: divide_right_mono)
  then have "fl (real_of_int (int i + 1) / real_of_int n) \<le> fl (real_of_int (int k + 1) / real_of_int n)"
    by (rule fl_mono)
  then have "fl (real_of_int (int i + 1) / real_of_int n) * 100 \<le> fl (real_of_int (int k + 1) / real_of_int n) * 100"
    by simp
  then have "fl (fl (real_of_int (int i + 1) / real_of_int n) * 100) \<le> fl (fl (real_of_int (int k + 1) / real_of_int n) * 100)"
    by (rule fl_mono)
  then show ?thesis
    unfolding pct_def float_mul_int_def float_of_int_def
    using fl_hundred by (simp add: py_int_mono)
qed

lemma pct_full: "0 < n \<Longrightarrow> int i + 1 = n \<Longrightarrow> pct i n = 100"
proof -
  assume n: "0 < n" and e: "int i + 1 = n"
  have "real_of_int (int i + 1) / real_of_int n = 1" using n e by simp
  then show ?thesis
    unfolding pct_def float_mul_int_def float_of_int_def
    using fl_hundred fl_one by (simp add: py_int_def)
qed

lemma fl_below_one: "fl (1 - 1 / 2 ^ 53) = 1 - 1 / 2 ^ 53"
  by (simp add: fl_eval)

lemma fl_below_hundred: "fl (100 - 100 / 2 ^ 53) = 100 - 1 / 2 ^ 46"
  by (simp add: fl_eval)

lemma pct_below:
  assumes "int i + 1 < n" "n \<le> 2 ^ 53"
  shows "pct i n < 100"
proof -
  let ?x = "real_of_int (int i + 1) / real_of_int n"
  have n: "0 < real_of_int n" using assms(1) by simp
  have "real_of_int (int i + 1) \<le> real_of_int (n - 1)" using assms(1) of_int_le_iff by (metis zle_diff1_eq)
  then have "?x \<le> real_of_int (n - 1) / real_of_int n" using n by (simp add: divide_right_mono)
  also have "\<dots> = 1 - 1 / real_of_int n" using n by (simp add: diff_divide_distrib)
  finally have "?x \<le> 1 - 1 / real_of_int n" .
  moreover have "1 / (2::real) ^ 53 \<le> 1 / real_of_int n"
  proof -
    have "real_of_int n \<le> real_of_int (2 ^ 53)" using assms(2) of_int_le_iff by blast
    then show ?thesis using n by (simp add: field_simps)
  qed
  ultimately have "?x \<le> 1 - 1 / 2 ^ 53" by linarith
  then have "fl ?x \<le> 1 - 1 / 2 ^ 53" using fl_mono [of ?x "1 - 1 / 2 ^ 53"] fl_below_one by simp
  then have "fl ?x * 100 \<le> 100 - 100 / 2 ^ 53" by simp
  then have "fl (fl ?x * 100) \<le> 100 - 1 / 2 ^ 46"
    using fl_mono [of "fl ?x * 100" "100 - 100 / 2 ^ 53"] fl_below_hundred by simp
  then have lt: "fl (fl ?x * 100) < 100" by simp
  have "0 \<le> ?x" using n by simp
  then have "0 \<le> fl ?x * 100" using fl_nonneg [of ?x] by simp
  then have "0 \<le> fl (fl ?x * 100)" by (rule fl_nonneg)
  then have "py_int (fl (fl ?x * 100)) = \<lfloor>fl (fl ?x * 100)\<rfloor>" by (simp add: py_int_def)
  moreover have "\<lfloor>fl (fl ?x * 100)\<rfloor> < 100" using lt by (simp add: floor_less_iff)
  ultimately show ?thesis
    unfolding pct_def float_mul_int_def float_of_int_def using fl_hundred by simp
qed

section \<open>Evaluating the string functions\<close>

lemma str_nat_base: "n < 10 \<Longrightarrow> str_nat n = [digit_char n]"
  by (simp add: str_nat.simps)

lemma str_nat_step: "10 \<le> n \<Longrightarrow> str_nat n = str_nat (n div 10) @ [digit_char (n mod 10)]"
  by (subst str_nat.simps) simp

lemmas str_eval = is_space_def is_int_space_def max_str_digits_def strip_def split_ws_def digit_val_def parse_unsigned_def
  int_of_string_def digit_char_def str_nat_base str_nat_step str_int_def fmt03d_def str_opt_def

lemma parse_1920x1080: "parse_resolution ''1920x1080'' = Some (1920, 1080)"
  by (simp add: parse_resolution_def str_eval)

section \<open>Segment boundaries\<close>

lemma float_of_int_exact: "\<bar>k\<bar> \<le> 2 ^ 53 \<Longrightarrow> float_of_int k = of_int k"
  by (simp add: float_of_int_def fl_of_int)

lemma float_of_int_ge:
  assumes "(td::real) \<le> 2 ^ 53" "td \<le> of_int s" "0 \<le> s"
  shows "td \<le> float_of_int s"
proof (cases "s \<le> 2 ^ 53")
  case True
  then show ?thesis using assms by (simp add: float_of_int_exact)
next
  case False
  then have "real_of_int (2 ^ 53) \<le> real_of_int s" using of_int_le_iff by (metis linear)
  then have "fl (2 ^ 53) \<le> fl (of_int s)" using fl_mono by simp
  moreover have "fl (2 ^ 53) = 2 ^ 53" using fl_of_int [of "2 ^ 53"] by simp
  ultimately show ?thesis using assms(1) by (simp add: float_of_int_def)
qed

lemma segment_times_None:
  assumes "0 < seg" "td \<le> 2 ^ 53" "td \<le> of_int (int i * seg)"
  shows "segment_times td seg i = None"
proof -
  have "0 \<le> int i * seg" using assms(1) by simp
  from float_of_int_ge [OF assms(2) assms(3) this]
  have "td - float_of_int (int i * seg) \<le> 0" by simp
  then have "float_sub_int td (int i * seg) \<le> 0"
    unfolding float_sub_int_def by (simp only: fl_le_zero_iff)
  then show ?thesis by (simp add: segment_times_def)
qed

lemma start_exact:
  assumes "0 < seg" "td \<le> 2 ^ 53" "of_int (int i * seg) < td"
  shows "float_sub_int td (int i * seg) = fl (td - of_int (int i * seg))"
proof -
  have "0 \<le> int i * seg" using assms(1) by simp
  moreover have "real_of_int (int i * seg) < real_of_int (2 ^ 53)" using assms(2,3) by simp
  then have "int i * seg < 2 ^ 53" using of_int_less_iff by blast
  ultimately have "\<bar>int i * seg\<bar> \<le> 2 ^ 53" by simp
  then show ?thesis by (simp add: float_sub_int_def float_of_int_exact)
qed

lemma segment_times_Some:
  assumes "0 < seg" "td \<le> 2 ^ 53" "of_int (int i * seg) < td"
  shows "segment_times td seg i = Some (int i * seg, duration_at td seg i)"
proof -
  have "0 < td - of_int (int i * seg)" using assms(3) by simp
  then have "0 < fl (td - of_int (int i * seg))" by (rule fl_pos)
  then have "\<not> float_sub_int td (int i * seg) \<le> 0"
    unfolding start_exact [OF assms] by simp
  then show ?thesis by (simp add: segment_times_def duration_at_def Let_def)
qed

lemma fl_le_int:
  assumes "(x::real) \<le> of_int k" "x \<le> 2 ^ 53" "0 \<le> k"
  shows "fl x \<le> of_int k"
proof (cases "k \<le> 2 ^ 53")
  case True
  then have "fl (of_int k) = of_int k" using assms(3) by (intro fl_of_int) simp
  then show ?thesis using fl_mono [OF assms(1)] by simp
next
  case False
  then have "real_of_int (2 ^ 53) \<le> real_of_int k" using of_int_le_iff by (metis linear)
  moreover have "fl x \<le> fl (2 ^ 53)" using assms(2) by (rule fl_mono)
  moreover have "fl (2 ^ 53) = 2 ^ 53" using fl_of_int [of "2 ^ 53"] by simp
  ultimately show ?thesis by simp
qed

lemma fl_ge_int:
  assumes "of_int k \<le> (x::real)" "x \<le> 2 ^ 53" "0 \<le> k"
  shows "of_int k \<le> fl x"
proof -
  have "real_of_int k \<le> real_of_int (2 ^ 53)" using assms(1,2) by simp
  then have "k \<le> 2 ^ 53" using of_int_le_iff by blast
  then have "fl (of_int k) = of_int k" using assms(3) by (intro fl_of_int) simp
  then show ?thesis using fl_mono [OF assms(1)] by simp
qed

lemma duration_at_full:
  assumes "0 < seg" "td \<le> 2 ^ 53" "of_int ((int i + 1) * seg) \<le> td"
  shows "duration_at td seg i = PyInt seg"
proof -
  have s0: "0 \<le> real_of_int (int i * seg)" using assms(1) by simp
  have lt: "real_of_int (int i * seg) < td" using assms(1,3) by (simp add: algebra_simps)
  have "of_int seg \<le> td - of_int (int i * seg)" using assms(3) by (simp add: algebra_simps)
  moreover have "td - of_int (int i * seg) \<le> 2 ^ 53" using assms(2) s0 by linarith
  ultimately have "of_int seg \<le> fl (td - of_int (int i * seg))"
    using assms(1) by (intro fl_ge_int) simp_all
  then have "\<not> float_sub_int td (int i * seg) < of_int seg"
    unfolding start_exact [OF assms(1,2) lt] by simp
  then show ?thesis by (simp add: duration_at_def)
qed

lemma duration_at_last:
  assumes "0 < seg" "td \<le> 2 ^ 53" "of_int (int i * seg) < td" "td \<le> of_int ((int i + 1) * seg)"
  shows "num_val (duration_at td seg i) = float_sub_int td (int i * seg)"
proof (cases "float_sub_int td (int i * seg) < of_int seg")
  case True
  then show ?thesis by (simp add: duration_at_def)
next
  case False
  have s0: "0 \<le> real_of_int (int i * seg)" using assms(1) by simp
  have "td - of_int (int i * seg) \<le> of_int seg" using assms(4) by (simp add: algebra_simps)
  moreover have "td - of_int (int i * seg) \<le> 2 ^ 53" using assms(2) s0 by linarith
  ultimately have "fl (td - of_int (int i * seg)) \<le> of_int seg"
    using assms(1) by (intro fl_le_int) simp_all
  then have "float_sub_int td (int i * seg) = of_int seg"
    using False unfolding start_exact [OF assms(1-3)] by simp
  then show ?thesis using False by (simp add: duration_at_def)
qed

lemma segment_count_less:
  assumes "0 < seg"
  shows "i < segment_count td seg \<longleftrightarrow> of_int (int i * seg) < td"
proof -
  have s: "0 < real_of_int seg" using assms by simp
  have "i < segment_count td seg \<longleftrightarrow> int i < \<lceil>td / of_int seg\<rceil>"
    by (simp add: segment_count_def nat_less_iff zless_nat_eq_int_zless)
  also have "\<dots> \<longleftrightarrow> of_int (int i) < td / of_int seg" by (simp add: less_ceiling_iff)
  also have "\<dots> \<longleftrightarrow> of_int (int i * seg) < td" using s by (simp add: field_simps)
  finally show ?thesis .
qed

lemma segment_count_le_range:
  "segment_count td seg \<le> nat (\<lfloor>td / of_int seg\<rfloor> + 1)"
proof -
  have "\<lceil>td / real_of_int seg\<rceil> \<le> \<lfloor>td / real_of_int seg\<rfloor> + 1" using ceiling_diff_floor_le_1 [of "td / real_of_int seg"] by linarith
  then show ?thesis unfolding segment_count_def by (rule nat_mono)
qed

text \<open>
  Line 73 on integers of at most 53 bits: the conversion of the segment length is exact,
  and so is the floor division.
\<close>

lemma int_to_float_exact: "\<bar>k\<bar> \<le> 2 ^ 53 \<Longrightarrow> int_to_float k = Inr (of_int k)"
proof -
  assume k: "\<bar>k\<bar> \<le> 2 ^ 53"
  have e: "fl (of_int k) = of_int k" using k by (rule fl_of_int)
  have "\<bar>real_of_int k\<bar> \<le> 2 ^ 53" using k by (metis of_int_abs of_int_le_iff of_int_numeral of_int_power)
  also have "(2::real) ^ 53 < 2 ^ 1024" by simp
  finally have "\<not> 2 ^ 1024 \<le> \<bar>real_of_int k\<bar>" by simp
  then show ?thesis by (simp add: int_to_float_def e float_of_int_def)
qed

lemma floordiv_exact:
  assumes k: "0 < k" "k \<le> 2 ^ 53" and x: "0 \<le> x" "x \<le> 2 ^ 53"
  shows "floordiv x k = Inr \<lfloor>x / of_int k\<rfloor>"
proof -
  let ?q = "\<lfloor>x / of_int k\<rfloor>"
  have ka: "\<bar>k\<bar> \<le> 2 ^ 53" using k by simp
  have kr: "0 < real_of_int k" using k by simp
  have q0: "0 \<le> ?q" using x(1) kr by simp
  have pi: "py_int (x / of_int k) = ?q" using x(1) kr by (simp add: py_int_def)
  have ql: "of_int ?q * real_of_int k \<le> x"
    using kr by (simp add: pos_le_divide_eq [symmetric])
  have md: "fmod x (of_int k) = x - of_int (k * ?q)" by (simp add: fmod_def pi)
  have md0: "0 \<le> fmod x (of_int k)" unfolding md using ql by (simp add: mult.commute)
  have "real_of_int (k * ?q) \<le> 2 ^ 53" using ql x(2) by (simp add: mult.commute)
  then have kq: "k * ?q \<le> 2 ^ 53" by (metis of_int_le_iff of_int_numeral of_int_power)
  have kq0: "0 \<le> k * ?q" using k q0 by simp
  have f1: "fl (of_int (k * ?q)) = of_int (k * ?q)" using kq kq0 by (intro fl_of_int) simp
  have "?q \<le> k * ?q" using k q0 by (simp add: mult_le_cancel_right1)
  then have qb: "?q \<le> 2 ^ 53" using kq by linarith
  have f2: "fl (of_int ?q) = of_int ?q" using qb q0 by (intro fl_of_int) simp
  have d: "real_of_int (k * ?q) / real_of_int k = of_int ?q" using kr by simp
  have dv: "fl (fl (x - fmod x (of_int k)) / of_int k) = of_int ?q"
    unfolding md using f1 f2 d by simp
  have nk: "\<not> k < 0" "k \<noteq> 0" using k by simp_all
  have nm: "\<not> fmod x (of_int k) < 0" using md0 by simp
  show ?thesis
    using q0 by (simp add: floordiv_def int_to_float_exact [OF ka] Let_def dv nk nm fl_zero py_int_def)
qed

lemma segments_planned_exact:
  assumes "0 < k" "k \<le> 2 ^ 53" "0 \<le> x" "x \<le> 2 ^ 53"
  shows "segments_planned x k = \<lfloor>x / of_int k\<rfloor> + 1"
  by (simp add: segments_planned_def floordiv_exact [OF assms])

lemma segment_count_le_planned:
  assumes "0 < seg" "seg \<le> 2 ^ 53" "td \<le> 2 ^ 53"
  shows "segment_count td seg \<le> nat (segments_planned td seg)"
proof (cases "0 \<le> td")
  case True
  then show ?thesis
    using segment_count_le_range [of td seg] by (simp add: segments_planned_exact [OF assms(1,2) True assms(3)])
next
  case False
  then have "td / of_int seg \<le> 0" using assms(1) by (simp add: divide_le_0_iff)
  then have "\<lceil>td / of_int seg\<rceil> \<le> 0" by (simp add: ceiling_le_zero)
  then show ?thesis by (simp add: segment_count_def)
qed

lemma segments_planned_eval:
  "segments_planned 125 60 = 3" "segments_planned 120 60 = 3" "segments_planned 240 60 = 5"
  by (simp_all add: segments_planned_exact)

lemma floordiv_returns_eval:
  "\<not> isl (floordiv 125 60)" "\<not> isl (floordiv 120 60)" "\<not> isl (floordiv 240 60)"
  by (simp_all add: floordiv_exact)

text \<open>
  Outside that range line 73 behaves differently: a segment length of \<open>2 ^ 1024\<close> does not
  fit a float, a divisor of \<open>2 ^ 53 + 1\<close> is rounded to \<open>2 ^ 53\<close> before the division, and
  \<^verbatim>\<open>1e17 // 3\<close> is not the floor of the exact quotient.
\<close>

lemma fl_big: "fl (2 ^ 1024) = 2 ^ 1024"
  by (simp add: fl_eval)

lemma int_to_float_overflow: "int_to_float (2 ^ 1024) = Inl OverflowError"
  using fl_big by (simp add: int_to_float_def)

lemma floordiv_overflow: "floordiv 125 (2 ^ 1024) = Inl OverflowError"
  unfolding floordiv_def int_to_float_overflow by simp

lemma fl_odd: "fl (2 ^ 53 + 1) = 2 ^ 53"
  by (simp add: fl_eval)

lemma fl_53: "fl (2 ^ 53) = 2 ^ 53"
  by (simp add: fl_eval)

lemma int_to_float_rounds: "int_to_float (2 ^ 53 + 1) = Inr (2 ^ 53)"
  using fl_odd by (simp add: int_to_float_def float_of_int_def)

lemma floordiv_rounded_divisor: "floordiv (2 ^ 53) (2 ^ 53 + 1) = Inr 1"
proof -
  have m: "fmod (2 ^ 53) (2 ^ 53) = 0" by (simp add: fmod_def py_int_def)
  show ?thesis
    unfolding floordiv_def int_to_float_rounds
    using fl_53 m by (simp add: Let_def fl_one fl_zero py_int_def)
qed

lemma floordiv_zero: "floordiv x 0 = Inl ZeroDivisionError"
  by (simp add: floordiv_def int_to_float_def float_of_int_def fl_zero)

lemma floordiv_inexact: "floordiv (10 ^ 17) 3 = Inr 33333333333333332"
proof -
  have c: "int_to_float 3 = Inr 3" by (simp add: int_to_float_exact)
  have m: "fmod (10 ^ 17) 3 = 1" by (simp add: fmod_def py_int_def)
  have a: "fl (10 ^ 17 - 1) = 10 ^ 17" by (simp add: fl_eval)
  have b: "fl (10 ^ 17 / 3) = 33333333333333332" by (simp add: fl_eval)
  have d: "fl (10 ^ 17) = 10 ^ 17" by (simp add: fl_eval)
  show ?thesis
    unfolding floordiv_def c using a b d m by (simp add: Let_def fl_zero py_int_def)
qed

section \<open>The traces of the loops\<close>

lemma exit_code_SomeD: "exit_code p = Some c \<Longrightarrow> \<exists>out err. p = Exited c out err"
  by (cases p) simp_all

lemma exit_code_not_NoneD: "exit_code p \<noteq> None \<Longrightarrow> \<exists>c out err. p = Exited c out err"
  by (cases p) simp_all

lemma fast_body:
  assumes seg: "0 < segment_duration j" and td: "total_duration l \<le> 2 ^ 53"
    and i: "i < segment_count (total_duration l) (segment_duration j)"
    and n: "segment_count (total_duration l) (segment_duration j) \<le> nat (num_segments l)"
    and ex: "exit_code (run_segment w i) \<noteq> None"
  shows "fast_loop w j l (i # is) = fast_iteration w j l i @ fast_loop w j l is"
proof -
  from ex obtain c out err where p: "run_segment w i = Exited c out err"
    using exit_code_not_NoneD by blast
  have lt: "of_int (int i * segment_duration j) < total_duration l"
    using i segment_count_less [OF seg] by simp
  have st: "segment_times (total_duration l) (segment_duration j) i
            = Some (int i * segment_duration j,
                    duration_at (total_duration l) (segment_duration j) i)"
    using seg td lt by (rule segment_times_Some)
  have "int i + 1 \<le> num_segments l" using i n by linarith
  then have pc: "percent i (num_segments l) = Inr (pct i (num_segments l))"
    by (rule percent_ok)
  have nb: "\<not> total_duration l \<le> of_int (int i * segment_duration j)" using lt by simp
  show ?thesis
    by (simp add: st p pc nb fast_iteration_def Let_def del: of_int_mult)
qed

lemma precise_body:
  assumes seg: "0 < segment_duration j" and td: "total_duration l \<le> 2 ^ 53"
    and i: "i < segment_count (total_duration l) (segment_duration j)"
    and n: "segment_count (total_duration l) (segment_duration j) \<le> nat (num_segments l)"
    and ex: "exit_code (run_segment w i) = Some 0"
  shows "precise_loop w j l (i # is) = precise_iteration w j l i @ precise_loop w j l is"
proof -
  from ex obtain out err where p: "run_segment w i = Exited 0 out err"
    using exit_code_SomeD by blast
  have lt: "of_int (int i * segment_duration j) < total_duration l"
    using i segment_count_less [OF seg] by simp
  have st: "segment_times (total_duration l) (segment_duration j) i
            = Some (int i * segment_duration j,
                    duration_at (total_duration l) (segment_duration j) i)"
    using seg td lt by (rule segment_times_Some)
  have "int i + 1 \<le> num_segments l" using i n by linarith
  then have pc: "percent i (num_segments l) = Inr (pct i (num_segments l))"
    by (rule percent_ok)
  have nb: "\<not> total_duration l \<le> of_int (int i * segment_duration j)" using lt by simp
  show ?thesis
    by (simp add: st p pc nb precise_iteration_def Let_def del: of_int_mult)
qed

lemma precise_body_failure:
  assumes seg: "0 < segment_duration j" and td: "total_duration l \<le> 2 ^ 53"
    and i: "i < segment_count (total_duration l) (segment_duration j)"
    and ex: "exit_code (run_segment w i) = Some c" and c: "c \<noteq> 0"
  shows "precise_loop w j l (i # is) = precise_failure w j l i"
proof -
  from ex obtain out err where p: "run_segment w i = Exited c out err"
    using exit_code_SomeD by blast
  have lt: "of_int (int i * segment_duration j) < total_duration l"
    using i segment_count_less [OF seg] by simp
  have st: "segment_times (total_duration l) (segment_duration j) i
            = Some (int i * segment_duration j,
                    duration_at (total_duration l) (segment_duration j) i)"
    using seg td lt by (rule segment_times_Some)
  show ?thesis
    by (simp add: st p c precise_failure_def Let_def del: of_int_mult)
qed

lemma loops_stop:
  assumes seg: "0 < segment_duration j" and td: "total_duration l \<le> 2 ^ 53"
  shows "fast_loop w j l
           [segment_count (total_duration l) (segment_duration j)..<m] = [Finished True]"
    and "precise_loop w j l
           [segment_count (total_duration l) (segment_duration j)..<m] = [Finished True]"
proof -
  let ?c = "segment_count (total_duration l) (segment_duration j)"
  have "\<not> ?c < ?c" by simp
  then have "total_duration l \<le> of_int (int ?c * segment_duration j)"
    unfolding segment_count_less [OF seg] by simp
  with seg td have st: "segment_times (total_duration l) (segment_duration j) ?c = None"
    by (rule segment_times_None)
  show "fast_loop w j l [?c..<m] = [Finished True]"
    by (cases "?c < m") (simp_all add: upt_conv_Cons st)
  show "precise_loop w j l [?c..<m] = [Finished True]"
    by (cases "?c < m") (simp_all add: upt_conv_Cons st)
qed

lemma fast_loop_trace:
  assumes seg: "0 < segment_duration j" and td: "total_duration l \<le> 2 ^ 53"
    and n: "segment_count (total_duration l) (segment_duration j) \<le> nat (num_segments l)"
    and ex: "\<forall>i < segment_count (total_duration l) (segment_duration j).
               exit_code (run_segment w i) \<noteq> None"
    and k: "k \<le> segment_count (total_duration l) (segment_duration j)"
  shows "fast_loop w j l [k..<nat (num_segments l)]
         = concat (map (fast_iteration w j l)
             [k..<segment_count (total_duration l) (segment_duration j)]) @ [Finished True]"
  using k
proof (induction "segment_count (total_duration l) (segment_duration j) - k" arbitrary: k)
  case 0
  then have "k = segment_count (total_duration l) (segment_duration j)" by simp
  then show ?case using loops_stop(1) [OF seg td] by simp
next
  case (Suc d)
  let ?c = "segment_count (total_duration l) (segment_duration j)"
  from Suc.hyps(2) have kc: "k < ?c" by simp
  then have kn: "k < nat (num_segments l)" using n by simp
  have ih: "fast_loop w j l [Suc k..<nat (num_segments l)]
            = concat (map (fast_iteration w j l) [Suc k..<?c]) @ [Finished True]"
    using Suc.hyps(2) kc by (intro Suc.hyps(1)) simp_all
  have "fast_loop w j l (k # [Suc k..<nat (num_segments l)])
        = fast_iteration w j l k @ fast_loop w j l [Suc k..<nat (num_segments l)]"
    using seg td kc n ex by (intro fast_body) simp_all
  then show ?case
    unfolding upt_conv_Cons [OF kn] upt_conv_Cons [OF kc] ih by simp
qed

lemma precise_loop_trace:
  assumes seg: "0 < segment_duration j" and td: "total_duration l \<le> 2 ^ 53"
    and n: "segment_count (total_duration l) (segment_duration j) \<le> nat (num_segments l)"
    and ex: "\<forall>i < segment_count (total_duration l) (segment_duration j).
               exit_code (run_segment w i) = Some 0"
    and k: "k \<le> segment_count (total_duration l) (segment_duration j)"
  shows "precise_loop w j l [k..<nat (num_segments l)]
         = concat (map (precise_iteration w j l)
             [k..<segment_count (total_duration l) (segment_duration j)]) @ [Finished True]"
  using k
proof (induction "segment_count (total_duration l) (segment_duration j) - k" arbitrary: k)
  case 0
  then have "k = segment_count (total_duration l) (segment_duration j)" by simp
  then show ?case using loops_stop(2) [OF seg td] by simp
next
  case (Suc d)
  let ?c = "segment_count (total_duration l) (segment_duration j)"
  from Suc.hyps(2) have kc: "k < ?c" by simp
  then have kn: "k < nat (num_segments l)" using n by simp
  have ih: "precise_loop w j l [Suc k..<nat (num_segments l)]
            = concat (map (precise_iteration w j l) [Suc k..<?c]) @ [Finished True]"
    using Suc.hyps(2) kc by (intro Suc.hyps(1)) simp_all
  have "precise_loop w j l (k # [Suc k..<nat (num_segments l)])
        = precise_iteration w j l k @ precise_loop w j l [Suc k..<nat (num_segments l)]"
    using seg td kc n ex by (intro precise_body) simp_all
  then show ?case
    unfolding upt_conv_Cons [OF kn] upt_conv_Cons [OF kc] ih by simp
qed

lemma precise_loop_abort:
  assumes seg: "0 < segment_duration j" and td: "total_duration l \<le> 2 ^ 53"
    and n: "segment_count (total_duration l) (segment_duration j) \<le> nat (num_segments l)"
    and f: "f < segment_count (total_duration l) (segment_duration j)"
    and ex: "\<forall>i < f. exit_code (run_segment w i) = Some 0"
    and fail: "exit_code (run_segment w f) = Some c" "c \<noteq> 0"
    and k: "k \<le> f"
  shows "precise_loop w j l [k..<nat (num_segments l)]
         = concat (map (precise_iteration w j l) [k..<f]) @ precise_failure w j l f"
  using k
proof (induction "f - k" arbitrary: k)
  case 0
  then have kf: "k = f" by simp
  have fn: "f < nat (num_segments l)" using f n by simp
  show ?case
    unfolding kf upt_conv_Cons [OF fn]
    using precise_body_failure [OF seg td f fail] by simp
next
  case (Suc d)
  let ?c = "segment_count (total_duration l) (segment_duration j)"
  from Suc.hyps(2) have kf: "k < f" by simp
  then have kc: "k < ?c" using f by simp
  then have kn: "k < nat (num_segments l)" using n by simp
  have ih: "precise_loop w j l [Suc k..<nat (num_segments l)]
            = concat (map (precise_iteration w j l) [Suc k..<f]) @ precise_failure w j l f"
    using Suc.hyps(2) kf by (intro Suc.hyps(1)) simp_all
  have "precise_loop w j l (k # [Suc k..<nat (num_segments l)])
        = precise_iteration w j l k @ precise_loop w j l [Suc k..<nat (num_segments l)]"
    using seg td kc n ex kf by (intro precise_body) simp_all
  then show ?case
    unfolding upt_conv_Cons [OF kn] upt_conv_Cons [OF kf] ih by simp
qed

section \<open>Geometry\<close>

lemma int_truediv:
  assumes "0 \<le> a" "a < 2 ^ 53" "0 < b"
  shows "(case truediv a b of Inl e \<Rightarrow> Inl e | Inr q \<Rightarrow> Inr (f (py_int q))) = Inr (f \<lfloor>real_of_int a / real_of_int b\<rfloor>)"
  using truediv_floor [OF assms(1) assms(3) assms(2)] by (simp add: floor_divide_of_int_eq)

lemma target_of_parsed:
  assumes "parse_resolution res = Some (ow, oh)" and "0 < ow" and "0 < oh"
  shows "calculate_target_resolution res ''9:16''
           = Inr (Some (\<lfloor>real_of_int (min oh 1920 * 9) / 16\<rfloor>, min oh 1920))
       \<and> calculate_target_resolution res ''4:5''
           = Inr (Some (\<lfloor>real_of_int (min oh 1350 * 4) / 5\<rfloor>, min oh 1350))
       \<and> calculate_target_resolution res ''1:1''
           = Inr (Some (min (min ow oh) 1080, min (min ow oh) 1080))
       \<and> calculate_target_resolution res ''16:9''
           = Inr (Some (min ow 1920, \<lfloor>real_of_int (min ow 1920 * 9) / 16\<rfloor>))"
proof -
  have a: "0 \<le> min oh 1920 * 9" "min oh 1920 * 9 < 2 ^ 53"
    and b: "0 \<le> min oh 1350 * 4" "min oh 1350 * 4 < 2 ^ 53"
    and c: "0 \<le> min ow 1920 * 9" "min ow 1920 * 9 < 2 ^ 53"
    using assms(2,3) by simp_all
  have t1: "(case truediv (min oh 1920 * 9) 16 of Inl e \<Rightarrow> Inl e
             | Inr q \<Rightarrow> Inr (Some (py_int q, min oh 1920)))
            = Inr (Some (\<lfloor>real_of_int (min oh 1920 * 9) / 16\<rfloor>, min oh 1920))"
    using int_truediv [OF a, of 16 "\<lambda>v. Some (v, min oh 1920)"] by simp
  have t2: "(case truediv (min oh 1350 * 4) 5 of Inl e \<Rightarrow> Inl e
             | Inr q \<Rightarrow> Inr (Some (py_int q, min oh 1350)))
            = Inr (Some (\<lfloor>real_of_int (min oh 1350 * 4) / 5\<rfloor>, min oh 1350))"
    using int_truediv [OF b, of 5 "\<lambda>v. Some (v, min oh 1350)"] by simp
  have t3: "(case truediv (min ow 1920 * 9) 16 of Inl e \<Rightarrow> Inl e
             | Inr q \<Rightarrow> Inr (Some (min ow 1920, py_int q)))
            = Inr (Some (min ow 1920, \<lfloor>real_of_int (min ow 1920 * 9) / 16\<rfloor>))"
    using int_truediv [OF c, of 16 "\<lambda>v. Some (min ow 1920, v)"] by simp
  show ?thesis
    unfolding calculate_target_resolution_def assms(1) Let_def
    by (simp only: t1 t2 t3 option.case prod.case) simp
qed

lemma target_1920x1080:
  "calculate_target_resolution ''1920x1080'' ''9:16'' = Inr (Some (607, 1080))"
  using target_of_parsed [OF parse_1920x1080] by simp

section \<open>The trace of a run\<close>

lemma run_ready:
  assumes "ready w j fp td target"
  shows "run w j = preamble w j fp td target @ encode w j (the_locals w j fp td target)"
proof -
  from assms have fp: "get_ffmpeg_path w = Some fp" "fp \<noteq> []"
    and d0: "exit_code (run_duration w) = Some 0"
    and fin: "float_of_string w (strip (std_out (run_duration w))) = Finite td"
    and r0: "exit_code (run_resolution w) \<noteq> None"
    and tg: "calculate_target_resolution (resolution_read w) (resolution j) = Inr target"
    and seg: "\<not> isl (floordiv td (segment_duration j))"
    by (simp_all add: ready_def)
  from seg obtain q where q: "floordiv td (segment_duration j) = Inr q"
    by (cases "floordiv td (segment_duration j)") simp_all
  from d0 obtain out err where d: "run_duration w = Exited 0 out err"
    using exit_code_SomeD by blast
  from r0 obtain rc rout rerr where r: "run_resolution w = Exited rc rout rerr"
    using exit_code_not_NoneD by blast
  have fin': "float_of_string w (strip out) = Finite td" using fin d by simp
  have rr: "resolution_read w = original_resolution_of rc rout" by (simp add: resolution_read_def r)
  have tg': "calculate_target_resolution (original_resolution_of rc rout) (resolution j) = Inr target"
    using tg rr by simp
  show ?thesis
    by (simp add: run_def fp d fin' r plan_def tg' q segments_planned_def preamble_def rr
        the_locals_def)
qed

section \<open>Reading the trace of a run\<close>

lemma executed_append: "executed (xs @ ys) = executed xs @ executed ys"
  by (induction xs rule: executed.induct) simp_all

lemma percentages_append: "percentages (xs @ ys) = percentages xs @ percentages ys"
  by (induction xs rule: percentages.induct) simp_all

lemma commands_append: "commands (xs @ ys) = commands xs @ commands ys"
  by (induction xs rule: commands.induct) simp_all

lemma warnings_append: "warnings (xs @ ys) = warnings xs @ warnings ys"
  by (induction xs rule: warnings.induct) simp_all

lemma preamble_quiet:
  "executed (preamble w j fp td target) = []"
  "percentages (preamble w j fp td target) = []"
  "commands (preamble w j fp td target) = []"
  "warnings (preamble w j fp td target) = []"
  "filter is_error (preamble w j fp td target) = []"
  "list_all (\<lambda>e. \<not> is_encode e) (preamble w j fp td target)"
  by (simp_all add: preamble_def target_notice_def scale_notices_def
      executed_append percentages_append commands_append warnings_append
      split: option.splits prod.splits)

lemma executed_fast_iterations:
  "executed (concat (map (fast_iteration w j l) xs))
   = map (\<lambda>i. (i, int i * segment_duration j,
                 duration_at (total_duration l) (segment_duration j) i)) xs"
  by (induction xs) (simp_all add: executed_append fast_iteration_def creating_def Let_def)

lemma executed_precise_iterations:
  "executed (concat (map (precise_iteration w j l) xs))
   = map (\<lambda>i. (i, int i * segment_duration j,
                 duration_at (total_duration l) (segment_duration j) i)) xs"
  by (induction xs) (simp_all add: executed_append precise_iteration_def creating_def Let_def)

lemma percentages_fast_iterations:
  "percentages (concat (map (fast_iteration w j l) xs)) = map (\<lambda>i. pct i (num_segments l)) xs"
  by (induction xs) (simp_all add: percentages_append fast_iteration_def creating_def Let_def)

lemma percentages_precise_iterations:
  "percentages (concat (map (precise_iteration w j l) xs)) = map (\<lambda>i. pct i (num_segments l)) xs"
  by (induction xs) (simp_all add: percentages_append precise_iteration_def creating_def Let_def)

lemma the_locals_simps:
  "total_duration (the_locals w j fp td target) = td"
  "num_segments (the_locals w j fp td target) = segments_planned td (segment_duration j)"
  "ffmpeg_path (the_locals w j fp td target) = fp"
  "filename (the_locals w j fp td target) = fst (splitext w (basename w (input_path j)))"
  "ext (the_locals w j fp td target) = snd (splitext w (input_path j))"
  "scale_filter (the_locals w j fp td target) = make_scale_filter j target"
  by (simp_all add: the_locals_def)

lemma encode_all_ok:
  assumes seg: "0 < segment_duration j" and td: "td \<le> 2 ^ 53"
    and ex: "\<forall>i. exit_code (run_segment w i) = Some 0"
    and sb: "segment_duration j \<le> 2 ^ 53" and td0: "0 \<le> td"
  shows "executed (encode w j (the_locals w j fp td target))
         = map (\<lambda>i. (i, int i * segment_duration j, duration_at td (segment_duration j) i))
             [0..<segment_count td (segment_duration j)]"
    and "percentages (encode w j (the_locals w j fp td target))
         = map (\<lambda>i. pct i (\<lfloor>td / of_int (segment_duration j)\<rfloor> + 1))
             [0..<segment_count td (segment_duration j)]"
    and "last (encode w j (the_locals w j fp td target)) = Finished True"
proof -
  let ?l = "the_locals w j fp td target"
  let ?c = "segment_count td (segment_duration j)"
  have td': "total_duration ?l \<le> 2 ^ 53" using td by (simp add: the_locals_simps)
  note pl = segments_planned_exact [OF seg sb td0 td]
  have n: "segment_count (total_duration ?l) (segment_duration j) \<le> nat (num_segments ?l)"
    by (simp add: the_locals_simps segment_count_le_planned [OF seg sb td])
  have ex0: "\<forall>i < segment_count (total_duration ?l) (segment_duration j).
               exit_code (run_segment w i) = Some 0" using ex by simp
  then have ex1: "\<forall>i < segment_count (total_duration ?l) (segment_duration j).
               exit_code (run_segment w i) \<noteq> None" by simp
  have f: "fast_loop w j ?l [0..<nat (num_segments ?l)]
           = concat (map (fast_iteration w j ?l) [0..<?c]) @ [Finished True]"
    using fast_loop_trace [OF seg td' n ex1, of 0] by (simp add: the_locals_simps)
  have p: "precise_loop w j ?l [0..<nat (num_segments ?l)]
           = concat (map (precise_iteration w j ?l) [0..<?c]) @ [Finished True]"
    using precise_loop_trace [OF seg td' n ex0, of 0] by (simp add: the_locals_simps)
  show "executed (encode w j ?l)
         = map (\<lambda>i. (i, int i * segment_duration j, duration_at td (segment_duration j) i)) [0..<?c]"
    unfolding encode_def f p
    by (simp add: executed_append executed_fast_iterations executed_precise_iterations
        the_locals_simps)
  show "percentages (encode w j ?l)
         = map (\<lambda>i. pct i (\<lfloor>td / of_int (segment_duration j)\<rfloor> + 1)) [0..<?c]"
    unfolding encode_def f p
    by (simp add: percentages_append percentages_fast_iterations percentages_precise_iterations
        the_locals_simps pl)
  show "last (encode w j ?l) = Finished True"
    unfolding encode_def f p by simp
qed

lemma run_all_ok:
  assumes r: "ready w j fp td target"
    and seg: "0 < segment_duration j" and td: "td \<le> 2 ^ 53"
    and ex: "\<forall>i. exit_code (run_segment w i) = Some 0"
    and sb: "segment_duration j \<le> 2 ^ 53" and td0: "0 \<le> td"
  shows "executed (run w j)
         = map (\<lambda>i. (i, int i * segment_duration j, duration_at td (segment_duration j) i))
             [0..<segment_count td (segment_duration j)]"
    and "percentages (run w j)
         = map (\<lambda>i. pct i (\<lfloor>td / of_int (segment_duration j)\<rfloor> + 1))
             [0..<segment_count td (segment_duration j)]"
    and "last (run w j) = Finished True"
proof -
  note e = encode_all_ok [OF seg td ex sb td0, of fp target]
  show "executed (run w j)
         = map (\<lambda>i. (i, int i * segment_duration j, duration_at td (segment_duration j) i))
             [0..<segment_count td (segment_duration j)]"
    unfolding run_ready [OF r] by (simp add: executed_append preamble_quiet e(1))
  show "percentages (run w j)
         = map (\<lambda>i. pct i (\<lfloor>td / of_int (segment_duration j)\<rfloor> + 1))
             [0..<segment_count td (segment_duration j)]"
    unfolding run_ready [OF r] by (simp add: percentages_append preamble_quiet e(2))
  have "encode w j (the_locals w j fp td target) \<noteq> []" by (simp add: encode_def)
  then show "last (run w j) = Finished True"
    unfolding run_ready [OF r] by (simp add: e(3))
qed

section \<open>The segments of a run that completes\<close>

lemma segment_count_pos: "0 < seg \<Longrightarrow> 0 < td \<Longrightarrow> 0 < segment_count td seg"
  using segment_count_less [of seg 0 td] by simp

lemma last_segment_bounds:
  assumes "0 < seg" "0 < td"
  shows "of_int (int (segment_count td seg - 1) * seg) < td"
    and "td \<le> of_int ((int (segment_count td seg - 1) + 1) * seg)"
proof -
  let ?c = "segment_count td seg"
  have c: "0 < ?c" using assms by (rule segment_count_pos)
  then have "?c - 1 < ?c" by simp
  then show "of_int (int (?c - 1) * seg) < td"
    unfolding segment_count_less [OF assms(1)] .
  have "\<not> ?c < ?c" by simp
  then have "td \<le> of_int (int ?c * seg)"
    unfolding segment_count_less [OF assms(1)] by simp
  moreover have "int (?c - 1) + 1 = int ?c" using c by simp
  ultimately show "td \<le> of_int ((int (?c - 1) + 1) * seg)" by simp
qed

lemma inner_durations:
  assumes "0 < seg" "td \<le> 2 ^ 53" "Suc i < segment_count td seg"
  shows "duration_at td seg i = PyInt seg"
proof -
  have lt: "real_of_int (int (Suc i) * seg) < td"
    using assms(3) unfolding segment_count_less [OF assms(1)] .
  have eq: "int (Suc i) * seg = (int i + 1) * seg" by simp
  from lt have "real_of_int ((int i + 1) * seg) \<le> td" unfolding eq by (rule less_imp_le)
  with assms(1,2) show ?thesis by (rule duration_at_full)
qed

lemma last_duration_error:
  assumes "0 < seg" "0 < td" "td \<le> 2 ^ 53"
  shows "\<bar>float_sub_int td (int (segment_count td seg - 1) * seg)
          - (td - of_int (int (segment_count td seg - 1) * seg))\<bar>
         \<le> (td - of_int (int (segment_count td seg - 1) * seg)) / 2 ^ 53"
proof -
  let ?s = "int (segment_count td seg - 1) * seg"
  note b = last_segment_bounds [OF assms(1,2)]
  have r: "0 \<le> td - of_int ?s" using b(1) by simp
  have "\<bar>fl (td - of_int ?s) - (td - of_int ?s)\<bar> \<le> \<bar>td - of_int ?s\<bar> / 2 ^ 53"
    by (rule fl_error)
  then show ?thesis
    unfolding start_exact [OF assms(1,3) b(1)] abs_of_nonneg [OF r] .
qed

lemma sum_durations:
  assumes "0 < seg" "0 < td" "td \<le> 2 ^ 53"
  shows "sum_list (map (\<lambda>i. num_val (duration_at td seg i)) [0..<segment_count td seg])
         = of_int (int (segment_count td seg - 1) * seg)
           + float_sub_int td (int (segment_count td seg - 1) * seg)"
proof -
  let ?c = "segment_count td seg"
  have c: "0 < ?c" using assms(1,2) by (rule segment_count_pos)
  then have sc: "Suc (?c - 1) = ?c" by simp
  have "[0..<Suc (?c - 1)] = [0..<?c - 1] @ [?c - 1]" by (rule upt_Suc_append) simp
  then have split: "[0..<?c] = [0..<?c - 1] @ [?c - 1]" unfolding sc .
  have inner: "map (\<lambda>i. num_val (duration_at td seg i)) [0..<?c - 1]
               = map (\<lambda>i. real_of_int seg) [0..<?c - 1]"
  proof (rule map_cong [OF refl])
    fix i assume "i \<in> set [0..<?c - 1]"
    then have "Suc i < ?c" by simp
    then show "num_val (duration_at td seg i) = real_of_int seg"
      using inner_durations [OF assms(1,3)] by simp
  qed
  note b = last_segment_bounds [OF assms(1,2)]
  have lastd: "num_val (duration_at td seg (?c - 1)) = float_sub_int td (int (?c - 1) * seg)"
    using assms(1,3) b by (rule duration_at_last)
  have "sum_list (map (\<lambda>i. num_val (duration_at td seg i)) [0..<?c])
        = sum_list (map (\<lambda>i. real_of_int seg) [0..<?c - 1])
          + num_val (duration_at td seg (?c - 1))"
    by (subst split) (simp only: map_append sum_list_append inner, simp)
  also have "sum_list (map (\<lambda>i. real_of_int seg) [0..<?c - 1]) = of_int (int (?c - 1) * seg)"
    by (simp add: sum_list_triv)
  finally show ?thesis by (simp only: lastd)
qed

section \<open>The sample inputs\<close>

lemma ready_demo:
  "ready (demo_env ''125.0'' 125 segs) (demo_job m ''original'') ''/opt/splitter/'' 125 None"
  "ready (demo_env ''120.0'' 120 segs) (demo_job m ''original'') ''/opt/splitter/'' 120 None"
  "ready (demo_env ''240.0'' 240 segs) (demo_job m ''original'') ''/opt/splitter/'' 240 None"
  by (simp_all add: ready_def demo_env_def demo_job_def strip_def is_space_def
      calculate_target_resolution_def floordiv_returns_eval)

lemma demo_job_simps:
  "segment_duration (demo_job m r) = 60"
  "mode (demo_job m r) = m"
  "resolution (demo_job m r) = r"
  "input_path (demo_job m r) = ''clip.mkv''"
  "output_dir (demo_job m r) = ''clip''"
  "scale_crop (demo_job m r) = True"
  by (simp_all add: demo_job_def)

lemma demo_env_simps:
  "run_segment (demo_env out td segs) = segs"
  "get_ffmpeg_path (demo_env out td segs) = Some ''/opt/splitter/''"
  by (simp_all add: demo_env_def)

text \<open>
  A segment length that does not fit a float: the run ends at line 73 with the error of
  the \<^verbatim>\<open>except\<close> clause and calls no encoder.
\<close>

lemma run_overflow:
  "last (run (demo_env ''125.0'' 125 all_ok)
           ((demo_job ''fast'' ''original'')\<lparr>segment_duration := 2 ^ 1024\<rparr>))
     = Error (Unexpected OverflowError)
   \<and> executed (run (demo_env ''125.0'' 125 all_ok)
           ((demo_job ''fast'' ''original'')\<lparr>segment_duration := 2 ^ 1024\<rparr>)) = []"
  using floordiv_overflow
  by (simp add: run_def plan_def demo_env_def demo_job_def strip_def is_space_def
      calculate_target_resolution_def original_resolution_of_def target_notice_def)

section \<open>Encoder calls that fail\<close>

lemma warnings_fast_iterations:
  "warnings (concat (map (fast_iteration w j l) xs))
   = map (\<lambda>i. int i + 1) (filter (\<lambda>i. exit_code (run_segment w i) \<noteq> Some 0) xs)"
  by (induction xs) (simp_all add: warnings_append fast_iteration_def creating_def Let_def)

lemma errors_fast_iterations:
  "filter is_error (concat (map (fast_iteration w j l) xs)) = []"
  by (induction xs) (simp_all add: fast_iteration_def creating_def Let_def)

lemma errors_precise_iterations:
  "filter is_error (concat (map (precise_iteration w j l) xs)) = []"
  by (induction xs) (simp_all add: precise_iteration_def creating_def Let_def)

lemma finished_precise_iterations:
  "filter is_finished (concat (map (precise_iteration w j l) xs)) = []"
  by (induction xs) (simp_all add: precise_iteration_def creating_def Let_def)

lemma finished_preamble: "filter is_finished (preamble w j fp td target) = []"
  by (simp add: preamble_def target_notice_def scale_notices_def
      split: option.splits prod.splits)

lemma executed_indices:
  "map (fst \<circ> (\<lambda>i. (i, f i))) xs = xs"
  by (induction xs) simp_all

lemma second_fails_simps:
  "exit_code (second_fails i) = Some (if i = 1 then 1 else 0)"
  "std_err (second_fails (Suc 0)) = ''broken''"
  by (simp_all add: second_fails_def)

section \<open>A duration that is a multiple of the segment length\<close>

lemma segment_count_multiple:
  assumes "0 < seg" "0 \<le> m"
  shows "segment_count (of_int (m * seg)) seg = nat m"
proof -
  have "real_of_int (m * seg) / real_of_int seg = real_of_int m" using assms(1) by simp
  then show ?thesis by (simp add: segment_count_def)
qed

lemma num_segments_multiple:
  assumes "0 < seg"
  shows "\<lfloor>real_of_int (m * seg) / real_of_int seg\<rfloor> + 1 = m + 1"
proof -
  have "real_of_int (m * seg) / real_of_int seg = real_of_int m" using assms(1) by simp
  then show ?thesis by simp
qed

lemma duration_info_emitted:
  assumes "ready w j fp td target"
  shows "Progress (Duration_info td (segments_planned td (segment_duration j))) \<in> set (run w j)"
  unfolding run_ready [OF assms] by (simp add: preamble_def)

lemma multiple_bounds:
  assumes "0 < seg" "0 < m" "real_of_int (m * seg) \<le> 2 ^ 53"
  shows "seg \<le> 2 ^ 53" and "0 \<le> real_of_int (m * seg)"
proof -
  have "m * seg \<le> 2 ^ 53" using assms(3) by (metis of_int_le_iff of_int_numeral of_int_power)
  moreover have "seg \<le> m * seg" using assms(1,2) by (simp add: mult_le_cancel_right2)
  ultimately show "seg \<le> 2 ^ 53" by linarith
  have "0 \<le> m * seg" using assms(1,2) by simp
  then show "0 \<le> real_of_int (m * seg)" using of_int_0_le_iff by blast
qed

section \<open>The encoder commands of a run\<close>

lemma run_early_or_ready:
  "list_all early (run w j) \<or> (\<exists>fp td target. ready w j fp td target)"
  by (auto simp: run_def plan_def ready_def resolution_read_def Let_def
      target_notice_def
      split: option.splits proc.splits float_parse.splits sum.splits if_splits prod.splits)

lemma early_member: "list_all early es \<Longrightarrow> e \<in> set es \<Longrightarrow> early e"
  by (simp add: list_all_iff)

lemma fast_loop_encode:
  "Encode i s d cmd \<in> set (fast_loop w j l is) \<Longrightarrow>
     cmd = fast_cmd w j l i s d \<and> s = int i * segment_duration j"
proof (induction "is")
  case Nil
  then show ?case by simp
next
  case (Cons a as)
  show ?case
  proof (cases "segment_times (total_duration l) (segment_duration j) a")
    case None
    with Cons.prems show ?thesis by simp
  next
    case (Some p)
    obtain st du where p: "p = (st, du)" by (cases p)
    have st: "st = int a * segment_duration j"
      using Some p by (auto simp: segment_times_def Let_def split: if_splits)
    show ?thesis
    proof (cases "run_segment w a")
      case (Raised e)
      with Cons.prems Some p st show ?thesis by (auto simp: creating_def)
    next
      case (Exited rc out err)
      show ?thesis
      proof (cases "percent a (num_segments l)")
        case (Inl e)
        with Cons.prems Some p st Exited show ?thesis by (auto simp: creating_def)
      next
        case (Inr q)
        with Cons.prems Some p st Exited Cons.IH show ?thesis
          by (auto simp: creating_def split: if_splits)
      qed
    qed
  qed
qed

lemma precise_loop_events:
  "e \<in> set (precise_loop w j l is) \<Longrightarrow>
     e \<noteq> Progress Fast_mode
     \<and> (\<forall>i s d cmd. e = Encode i s d cmd
           \<longrightarrow> cmd = precise_cmd w j l i s d \<and> s = int i * segment_duration j)"
proof (induction "is")
  case Nil
  then show ?case by simp
next
  case (Cons a as)
  show ?case
  proof (cases "segment_times (total_duration l) (segment_duration j) a")
    case None
    with Cons.prems show ?thesis by simp
  next
    case (Some p)
    obtain st du where p: "p = (st, du)" by (cases p)
    have st: "st = int a * segment_duration j"
      using Some p by (auto simp: segment_times_def Let_def split: if_splits)
    show ?thesis
    proof (cases "run_segment w a")
      case (Raised x)
      with Cons.prems Some p st show ?thesis by (auto simp: creating_def)
    next
      case (Exited rc out err)
      show ?thesis
      proof (cases "percent a (num_segments l)")
        case (Inl x)
        with Cons.prems Some p st Exited show ?thesis
          by (auto simp: creating_def split: if_splits)
      next
        case (Inr q)
        with Cons.prems Some p st Exited Cons.IH show ?thesis
          by (auto simp: creating_def split: if_splits)
      qed
    qed
  qed
qed

lemma precise_loop_encode:
  "Encode i s d cmd \<in> set (precise_loop w j l is) \<Longrightarrow>
     cmd = precise_cmd w j l i s d \<and> s = int i * segment_duration j"
  using precise_loop_events by blast

lemma precise_loop_no_fast_notice:
  "Progress Fast_mode \<notin> set (precise_loop w j l is)"
  using precise_loop_events by blast

lemma early_executed: "list_all early es \<Longrightarrow> executed es = []"
  by (induction es rule: executed.induct) simp_all

lemma preamble_members:
  "Progress Fast_mode \<notin> set (preamble w j fp td target)"
  "Encode i s d cmd \<notin> set (preamble w j fp td target)"
  by (simp_all add: preamble_def target_notice_def scale_notices_def
      split: option.splits prod.splits)

lemma run_encode:
  assumes "Encode i s d cmd \<in> set (run w j)"
  shows "\<exists>fp td target. ready w j fp td target
           \<and> s = int i * segment_duration j
           \<and> cmd = (if effective_mode j = ''fast''
                    then fast_cmd w j (the_locals w j fp td target) i s d
                    else precise_cmd w j (the_locals w j fp td target) i s d)"
proof -
  have "\<not> list_all early (run w j)"
    using early_member [OF _ assms] by auto
  with run_early_or_ready [of w j] obtain fp td target where r: "ready w j fp td target"
    by blast
  let ?l = "the_locals w j fp td target"
  from assms have "Encode i s d cmd \<in> set (encode w j ?l)"
    unfolding run_ready [OF r] by (simp add: preamble_members)
  then have "s = int i * segment_duration j
             \<and> cmd = (if effective_mode j = ''fast'' then fast_cmd w j ?l i s d
                      else precise_cmd w j ?l i s d)"
    by (auto simp: encode_def dest: fast_loop_encode precise_loop_encode split: if_splits)
  with r show ?thesis by blast
qed

lemma run_fast_notice:
  assumes "Progress Fast_mode \<in> set (run w j)"
  shows "effective_mode j = ''fast''"
proof -
  have "\<not> list_all early (run w j)"
    using early_member [OF _ assms] by auto
  with run_early_or_ready [of w j] obtain fp td target where r: "ready w j fp td target"
    by blast
  from assms show ?thesis
    unfolding run_ready [OF r]
    by (auto simp: preamble_members encode_def precise_loop_no_fast_notice split: if_splits)
qed

lemma run_escalation_notice:
  assumes "executed (run w j) \<noteq> []"
    and "mode j = ''fast''" and "resolution j \<noteq> ''original''"
  shows "Progress Switching_to_precise \<in> set (takeWhile (\<lambda>e. \<not> is_encode e) (run w j))"
proof -
  have "\<not> list_all early (run w j)"
    using early_executed assms(1) by blast
  with run_early_or_ready [of w j] obtain fp td target where r: "ready w j fp td target"
    by blast
  have q: "\<And>e. e \<in> set (preamble w j fp td target) \<Longrightarrow> \<not> is_encode e"
    using preamble_quiet(6) [of w j fp td target] by (simp add: list_all_iff)
  have "Progress Switching_to_precise \<in> set (preamble w j fp td target)"
    using assms(2,3) by (simp add: preamble_def scale_notices_def)
  moreover have "takeWhile (\<lambda>e. \<not> is_encode e)
                   (preamble w j fp td target @ encode w j (the_locals w j fp td target))
                 = preamble w j fp td target
                   @ takeWhile (\<lambda>e. \<not> is_encode e) (encode w j (the_locals w j fp td target))"
    by (rule takeWhile_append2) (rule q)
  ultimately show ?thesis
    unfolding run_ready [OF r] by simp
qed

section \<open>The percentage events\<close>

lemma milestones_append: "milestones (xs @ ys) = milestones xs @ milestones ys"
  by (induction xs rule: milestones.induct) simp_all

lemma milestones_preamble: "milestones (preamble w j fp td target) = []"
  by (simp add: preamble_def target_notice_def scale_notices_def milestones_append
      split: option.splits prod.splits)

lemma milestones_fast_iterations:
  "milestones (concat (map (fast_iteration w j l) xs))
   = concat (map (\<lambda>i. [Inl i, Inr (pct i (num_segments l))]) xs)"
  by (induction xs) (simp_all add: milestones_append fast_iteration_def creating_def Let_def)

lemma milestones_precise_iterations:
  "milestones (concat (map (precise_iteration w j l) xs))
   = concat (map (\<lambda>i. [Inl i, Inr (pct i (num_segments l))]) xs)"
  by (induction xs) (simp_all add: milestones_append precise_iteration_def creating_def Let_def)

lemma run_all_ok_milestones:
  assumes r: "ready w j fp td target"
    and seg: "0 < segment_duration j" and td: "td \<le> 2 ^ 53"
    and ex: "\<forall>i. exit_code (run_segment w i) = Some 0"
    and sb: "segment_duration j \<le> 2 ^ 53" and td0: "0 \<le> td"
  shows "milestones (run w j)
         = concat (map (\<lambda>i. [Inl i, Inr (pct i (\<lfloor>td / of_int (segment_duration j)\<rfloor> + 1))])
             [0..<segment_count td (segment_duration j)])"
proof -
  let ?l = "the_locals w j fp td target"
  let ?c = "segment_count td (segment_duration j)"
  have td': "total_duration ?l \<le> 2 ^ 53" using td by (simp add: the_locals_simps)
  note pl = segments_planned_exact [OF seg sb td0 td]
  have n: "segment_count (total_duration ?l) (segment_duration j) \<le> nat (num_segments ?l)"
    by (simp add: the_locals_simps segment_count_le_planned [OF seg sb td])
  have ex0: "\<forall>i < segment_count (total_duration ?l) (segment_duration j).
               exit_code (run_segment w i) = Some 0" using ex by simp
  then have ex1: "\<forall>i < segment_count (total_duration ?l) (segment_duration j).
               exit_code (run_segment w i) \<noteq> None" by simp
  have f: "fast_loop w j ?l [0..<nat (num_segments ?l)]
           = concat (map (fast_iteration w j ?l) [0..<?c]) @ [Finished True]"
    using fast_loop_trace [OF seg td' n ex1, of 0] by (simp add: the_locals_simps)
  have p: "precise_loop w j ?l [0..<nat (num_segments ?l)]
           = concat (map (precise_iteration w j ?l) [0..<?c]) @ [Finished True]"
    using precise_loop_trace [OF seg td' n ex0, of 0] by (simp add: the_locals_simps)
  show ?thesis
    unfolding run_ready [OF r] encode_def f p
    by (simp add: milestones_append milestones_preamble milestones_fast_iterations
        milestones_precise_iterations the_locals_simps pl)
qed

lemma sorted_map_upt:
  assumes "\<And>i k. i \<le> k \<Longrightarrow> f i \<le> (f k :: int)"
  shows "sorted (map f [a..<b])"
  by (simp add: sorted_iff_nth_mono assms)

lemma num_segments_pos:
  assumes "0 < seg" "0 < td"
  shows "0 < \<lfloor>td / real_of_int seg\<rfloor> + 1"
proof -
  have "0 \<le> td / real_of_int seg" using assms by simp
  then have "0 \<le> \<lfloor>td / real_of_int seg\<rfloor>" by simp
  then show ?thesis by simp
qed

lemma pct_eval: "pct 0 3 = 33" "pct (Suc 0) 3 = 66" "pct 2 3 = 100"
  by (simp_all add: pct_def float_mul_int_def float_of_int_def py_int_def fl_eval)

lemma percent_eval:
  "py_int (float_mul_int (fl (1 / 3)) 100) = 33"
  "py_int (float_mul_int (fl (2 / 3)) 100) = 66"
  "py_int (float_mul_int (fl 1) 100) = 100"
  by (simp_all add: float_mul_int_def float_of_int_def py_int_def fl_eval)

lemma segment_count_eval: "segment_count 125 60 = 3" "segment_count 120 60 = 2"
  "segment_count 240 60 = 4"
  by (simp_all add: segment_count_def)

section \<open>The last percentage\<close>

lemma last_percentage:
  assumes r: "ready w j fp td target"
    and "0 < td" and td: "td \<le> 2 ^ 53" and seg: "0 < segment_duration j"
    and ex: "\<forall>i. exit_code (run_segment w i) = Some 0"
    and sb: "segment_duration j \<le> 2 ^ 53"
  shows "percentages (run w j) \<noteq> []"
    and "last (percentages (run w j))
         = pct (segment_count td (segment_duration j) - 1)
             (\<lfloor>td / of_int (segment_duration j)\<rfloor> + 1)"
proof -
  let ?c = "segment_count td (segment_duration j)"
  have c: "0 < ?c" using seg assms(2) by (rule segment_count_pos)
  have td0: "0 \<le> td" using assms(2) by simp
  note p = run_all_ok(2) [OF r seg td ex sb td0]
  show "percentages (run w j) \<noteq> []" unfolding p using c by simp
  show "last (percentages (run w j)) = pct (?c - 1) (\<lfloor>td / of_int (segment_duration j)\<rfloor> + 1)"
    unfolding p using c by (simp add: last_map)
qed

section \<open>A sample trace\<close>

lemma ready_demo_9_16:
  "ready (demo_env ''125.0'' 125 segs) (demo_job m ''9:16'') ''/opt/splitter/'' 125 (Some (607, 1080))"
  by (simp add: ready_def demo_env_def demo_job_def strip_def is_space_def
      resolution_read_def original_resolution_of_def target_1920x1080 floordiv_returns_eval)

lemma segment_times_eval:
  "segment_times 125 60 0 = Some (0, PyInt 60)"
  "segment_times 125 60 (Suc 0) = Some (60, PyInt 60)"
  "segment_times 125 60 2 = Some (120, PyFloat 5)"
  by (simp_all add: segment_times_def float_sub_int_def float_of_int_def fl_eval)

lemma duration_at_eval:
  "duration_at 125 60 0 = PyInt 60"
  "duration_at 125 60 (Suc 0) = PyInt 60"
  "duration_at 125 60 2 = PyFloat 5"
  by (simp_all add: duration_at_def float_sub_int_def float_of_int_def fl_eval)

lemma percent_call_eval:
  "percent 0 3 = Inr 33" "percent (Suc 0) 3 = Inr 66" "percent 2 3 = Inr 100"
  by (simp_all add: percent_ok pct_eval)

lemma creating_eval:
  "creating 0 0 (PyInt 60) = Progress (Creating_segment 1 0 60 (PyInt 60))"
  "creating (Suc 0) 60 (PyInt 60) = Progress (Creating_segment 2 60 120 (PyInt 60))"
  "creating 2 120 (PyFloat 5) = Progress (Creating_segment 3 120 125 (PyFloat 5))"
  by (simp_all add: creating_def int_add_float_def float_of_int_def py_int_def fl_eval)

lemma str_eval_demo:
  "str_int 0 = ''0''" "str_int 60 = ''60''" "str_int 120 = ''120''"
  "str_int 607 = ''607''" "str_int 1080 = ''1080''"
  "fmt03d 0 = ''000''" "fmt03d (Suc 0) = ''001''" "fmt03d 2 = ''002''"
  by (simp_all add: str_eval numeral_2_eq_2)

lemma filter_eval:
  "make_scale_filter (demo_job m ''9:16'') (Some (607, 1080))
   = ''-vf scale=607x1080:force_original_aspect_ratio=increase,crop=607:1080''"
  "filter_args ''-vf scale=607x1080:force_original_aspect_ratio=increase,crop=607:1080''
   = [''-vf'', ''scale=607x1080:force_original_aspect_ratio=increase,crop=607:1080'']"
  by (simp_all add: make_scale_filter_def demo_job_simps str_opt_def str_eval_demo
      filter_args_def split_ws_def is_space_def)

lemma demo_trace_escalated:
  "run (demo_env ''125.0'' 125 all_ok) (demo_job ''fast'' ''9:16'')
   = [Progress Probing,
      Probe [''/opt/splitter/ffprobe'', ''-v'', ''error'', ''-show_entries'', ''format=duration'',
             ''-of'', ''default=noprint_wrappers=1:nokey=1'', ''clip.mkv''],
      Probe [''/opt/splitter/ffprobe'', ''-v'', ''error'', ''-select_streams'', ''v:0'',
             ''-show_entries'', ''stream=width,height'', ''-of'', ''csv=s=x:p=0'',
             ''clip.mkv''],
      Progress (Original_resolution ''1920x1080''),
      Progress (Target_resolution 607 1080),
      Progress (Duration_info 125 3),
      Progress Scaling_crop,
      Progress Switching_to_precise,
      Progress Precise_mode,
      Progress (Creating_segment 1 0 60 (PyInt 60)),
      Encode 0 0 (PyInt 60)
        [''/opt/splitter/ffmpeg'', ''-accurate_seek'', ''-ss'', ''0'', ''-i'', ''clip.mkv'', ''-t'', ''60'',
         ''-c:v'', ''libx264'', ''-c:a'', ''aac'', ''-preset'', ''medium'', ''-crf'', ''23'',
         ''-b:a'', ''192k'', ''-map'', ''0:v'', ''-map'', ''0:a'', ''-movflags'', ''+faststart'',
         ''-vf'', ''scale=607x1080:force_original_aspect_ratio=increase,crop=607:1080'',
         ''clip/clip_000.mp4''],
      Progress (Segment_ready 1),
      Segment_progress 33,
      Progress (Creating_segment 2 60 120 (PyInt 60)),
      Encode 1 60 (PyInt 60)
        [''/opt/splitter/ffmpeg'', ''-accurate_seek'', ''-ss'', ''60'', ''-i'', ''clip.mkv'', ''-t'', ''60'',
         ''-c:v'', ''libx264'', ''-c:a'', ''aac'', ''-preset'', ''medium'', ''-crf'', ''23'',
         ''-b:a'', ''192k'', ''-map'', ''0:v'', ''-map'', ''0:a'', ''-movflags'', ''+faststart'',
         ''-vf'', ''scale=607x1080:force_original_aspect_ratio=increase,crop=607:1080'',
         ''clip/clip_001.mp4''],
      Progress (Segment_ready 2),
      Segment_progress 66,
      Progress (Creating_segment 3 120 125 (PyFloat 5)),
      Encode 2 120 (PyFloat 5)
        [''/opt/splitter/ffmpeg'', ''-accurate_seek'', ''-ss'', ''120'', ''-i'', ''clip.mkv'', ''-t'', ''5.0'',
         ''-c:v'', ''libx264'', ''-c:a'', ''aac'', ''-preset'', ''medium'', ''-crf'', ''23'',
         ''-b:a'', ''192k'', ''-map'', ''0:v'', ''-map'', ''0:a'', ''-movflags'', ''+faststart'',
         ''-vf'', ''scale=607x1080:force_original_aspect_ratio=increase,crop=607:1080'',
         ''clip/clip_002.mp4''],
      Progress (Segment_ready 3),
      Segment_progress 100,
      Finished True]"
proof -
  have u: "[0..<3] = [0, Suc 0, 2]" by (simp add: upt_rec)
  note fl3 = segments_planned_eval(1)
  have res: "resolution_read (demo_env ''125.0'' 125 all_ok) = ''1920x1080''"
    by (simp add: resolution_read_def demo_env_def original_resolution_of_def strip_def
        is_space_def)
  have five: "str_of_float (demo_env ''125.0'' 125 all_ok) 5 = ''5.0''"
    by (simp add: demo_env_def str_eval)
  have env: "splitext (demo_env ''125.0'' 125 all_ok) ''clip.mkv'' = (''clip'', ''.mkv'')"
    "basename (demo_env ''125.0'' 125 all_ok) ''clip.mkv'' = ''clip.mkv''"
    "path_join (demo_env ''125.0'' 125 all_ok) a b = a @ ''/'' @ b" for a b
    by (simp_all add: demo_env_def)
  show ?thesis
    unfolding run_ready [OF ready_demo_9_16]
    by (simp add: preamble_def res target_notice_def demo_job_simps fl3 scale_notices_def
        encode_def effective_mode_def the_locals_def u demo_env_simps all_ok_def
        segment_times_eval percent_call_eval creating_eval precise_cmd_def str_num_def
        str_eval_demo filter_eval five env duration_cmd_def resolution_cmd_def)
qed


section \<open>The resolution probe\<close>

lemma cmds_ignore_resolution_probe:
  "str_num (w\<lparr>run_resolution := p\<rparr>) d = str_num w d"
  "fast_cmd (w\<lparr>run_resolution := p\<rparr>) j l i s d = fast_cmd w j l i s d"
  "precise_cmd (w\<lparr>run_resolution := p\<rparr>) j l i s d = precise_cmd w j l i s d"
  by (simp_all add: fast_cmd_def precise_cmd_def str_num_def split: num.split)

lemma loops_ignore_resolution_probe:
  "fast_loop (w\<lparr>run_resolution := p\<rparr>) j l is = fast_loop w j l is"
  "precise_loop (w\<lparr>run_resolution := p\<rparr>) j l is = precise_loop w j l is"
  by (induction "is")
     (simp_all add: cmds_ignore_resolution_probe
        split: option.split proc.split sum.split prod.split)

lemma encode_ignores_resolution_probe:
  "encode (w\<lparr>run_resolution := p\<rparr>) j l = encode w j l"
  by (simp add: encode_def loops_ignore_resolution_probe)

lemma plan_ignores_resolution_probe:
  "plan (w\<lparr>run_resolution := p\<rparr>) j fp fname ex parsed res = plan w j fp fname ex parsed res"
  by (simp add: plan_def encode_ignores_resolution_probe
      split: sum.split float_parse.split)

lemma strip_default: "strip ''1920x1080'' = ''1920x1080''"
  by (simp add: strip_def is_space_def)

lemma run_probe_error:
  assumes "exit_code (run_resolution w) = Some c" and "c \<noteq> 0"
  shows "run w j = run (w\<lparr>run_resolution := Exited 0 ''1920x1080'' []\<rparr>) j"
proof -
  from assms(1) obtain out err where r: "run_resolution w = Exited c out err"
    using exit_code_SomeD by blast
  show ?thesis
    by (simp add: run_def Let_def r assms(2) original_resolution_of_def strip_default
        plan_ignores_resolution_probe
        split: option.split proc.split float_parse.split)
qed

lemma target_of_unparsed:
  assumes "parse_resolution res = None"
  shows "calculate_target_resolution res ratio = calculate_target_resolution ''1920x1080'' ratio"
  by (simp add: calculate_target_resolution_def assms parse_1920x1080)

lemma plan_unparsed:
  assumes "calculate_target_resolution res (resolution j)
           = calculate_target_resolution res' (resolution j)"
  shows "map hide_resolution (plan w j fp fname ex parsed res)
         = map hide_resolution (plan w j fp fname ex parsed res')"
  by (simp add: plan_def assms split: sum.split float_parse.split)

lemma run_probe_unparsed:
  assumes "exit_code (run_resolution w) = Some 0"
    and "parse_resolution (strip (std_out (run_resolution w))) = None"
  shows "map hide_resolution (run w j)
         = map hide_resolution (run (w\<lparr>run_resolution := Exited 0 ''1920x1080'' []\<rparr>) j)"
proof -
  from assms(1) obtain out err where r: "run_resolution w = Exited 0 out err"
    using exit_code_SomeD by blast
  have p: "parse_resolution (strip out) = None" using assms(2) r by simp
  have e: "calculate_target_resolution (strip out) (resolution j)
           = calculate_target_resolution ''1920x1080'' (resolution j)"
    using p by (rule target_of_unparsed)
  show ?thesis
    by (simp add: run_def Let_def r original_resolution_of_def strip_default
        plan_ignores_resolution_probe plan_unparsed [OF e]
        split: option.split proc.split float_parse.split)
qed

lemma run_same_resolution_read:
  assumes "exit_code (run_resolution w) \<noteq> None" and "exit_code p \<noteq> None"
    and "resolution_read (w\<lparr>run_resolution := p\<rparr>) = resolution_read w"
  shows "run (w\<lparr>run_resolution := p\<rparr>) j = run w j"
proof -
  from assms(1) obtain c out err where r: "run_resolution w = Exited c out err"
    using exit_code_not_NoneD by blast
  from assms(2) obtain c' out' err' where p: "p = Exited c' out' err'"
    using exit_code_not_NoneD by blast
  have e: "original_resolution_of c' out' = original_resolution_of c out"
    using assms(3) by (simp add: resolution_read_def r p)
  show ?thesis
    by (simp add: run_def Let_def r p e plan_ignores_resolution_probe
        split: option.split proc.split float_parse.split)
qed

lemma parse_not_available: "parse_resolution ''N/A'' = None"
  by (simp add: parse_resolution_def)

section \<open>The claims about the worker\<close>

text \<open>
  Claim C1. For every total duration \<open>0 < td \<le> 2 ^ 53\<close> and segment length
  \<open>0 < seg \<le> 2 ^ 53\<close>, in a run that
  reaches the loops and in which every encoder call exits with 0, the encoder is called
  for at least one segment; segment \<open>k\<close> has index \<open>k\<close> and start \<open>k * seg\<close>; every segment
  but the last has the duration \<open>seg\<close>; the duration of the last one is the float
  \<^verbatim>\<open>total_duration - start_time\<close>, which is at most \<open>seg\<close> and differs from the exact
  difference by at most \<open>seg / 2 ^ 53\<close>; and the durations sum to \<open>td\<close> up to \<open>td / 2 ^ 53\<close>.
  The bound \<open>2 ^ 53\<close> is the range in which a float holds every integer exactly: there
  the conversion of the segment length to a float and the floor division of line 73 are
  exact. It contains the segment lengths 1 to 3600 that the dialog offers.
\<close>

theorem segments_cover_duration:
  assumes "ready w j fp td target"
    and "0 < td" and "td \<le> 2 ^ 53" and "0 < segment_duration j"
    and "\<forall>i. exit_code (run_segment w i) = Some 0"
    and "segment_duration j \<le> 2 ^ 53"
  shows "let segs = executed (run w j); seg = segment_duration j
         in segs \<noteq> []
          \<and> (\<forall>k < length segs. fst (segs ! k) = k \<and> fst (snd (segs ! k)) = int k * seg)
          \<and> (\<forall>k. Suc k < length segs \<longrightarrow> snd (snd (segs ! k)) = PyInt seg)
          \<and> num_val (snd (snd (last segs))) = float_sub_int td (fst (snd (last segs)))
          \<and> \<bar>float_sub_int td (fst (snd (last segs))) - (td - of_int (fst (snd (last segs))))\<bar>
              \<le> of_int seg / 2 ^ 53
          \<and> num_val (snd (snd (last segs))) \<le> of_int seg
          \<and> \<bar>sum_list (map (\<lambda>s. num_val (snd (snd s))) segs) - td\<bar> \<le> td / 2 ^ 53"
proof -
  let ?seg = "segment_duration j"
  let ?c = "segment_count td ?seg"
  let ?f = "\<lambda>i. (i, int i * ?seg, duration_at td ?seg i)"
  let ?s = "int (?c - 1) * ?seg"
  have td0: "0 \<le> td" using assms(2) by simp
  have segs: "executed (run w j) = map ?f [0..<?c]"
    using assms(1,4,3,5,6) td0 by (rule run_all_ok(1))
  have c: "0 < ?c" using assms(4,2) by (rule segment_count_pos)
  note b = last_segment_bounds [OF assms(4,2)]
  have ne: "map ?f [0..<?c] \<noteq> []" using c by simp
  have lst: "last (map ?f [0..<?c]) = ?f (?c - 1)"
    using c by (simp add: last_map)
  have lastd: "num_val (duration_at td ?seg (?c - 1)) = float_sub_int td ?s"
    using assms(4,3) b by (rule duration_at_last)
  have r: "0 \<le> td - of_int ?s" "td - of_int ?s \<le> of_int ?seg"
    using b by (simp_all add: algebra_simps)
  note err = last_duration_error [OF assms(4,2,3)]
  have e1: "\<bar>float_sub_int td ?s - (td - of_int ?s)\<bar> \<le> of_int ?seg / 2 ^ 53"
  proof -
    have "(td - of_int ?s) / 2 ^ 53 \<le> of_int ?seg / 2 ^ 53" using r(2) by (simp add: divide_right_mono)
    with err show ?thesis by linarith
  qed
  have le: "float_sub_int td ?s \<le> of_int ?seg"
  proof -
    have "0 \<le> real_of_int ?s" using assms(4) by simp
    then have "td - of_int ?s \<le> 2 ^ 53" using assms(3) by linarith
    with r(2) have "fl (td - of_int ?s) \<le> of_int ?seg"
      using assms(4) by (intro fl_le_int) simp_all
    then show ?thesis unfolding start_exact [OF assms(4,3) b(1)] .
  qed
  have sm: "sum_list (map (\<lambda>s. num_val (snd (snd s))) (map ?f [0..<?c]))
            = of_int ?s + float_sub_int td ?s"
    using sum_durations [OF assms(4,2,3)] by (simp add: comp_def)
  have e2: "\<bar>of_int ?s + float_sub_int td ?s - td\<bar> \<le> td / 2 ^ 53"
  proof -
    have "0 \<le> real_of_int ?s" using assms(4) by simp
    then have "(td - of_int ?s) / 2 ^ 53 \<le> td / 2 ^ 53" by (simp add: divide_right_mono)
    with err show ?thesis by linarith
  qed
  have inner: "\<forall>k. Suc k < ?c \<longrightarrow> duration_at td ?seg k = PyInt ?seg"
    using inner_durations [OF assms(4,3)] by blast
  have idx: "\<forall>k < length (map ?f [0..<?c]).
               fst (map ?f [0..<?c] ! k) = k \<and> fst (snd (map ?f [0..<?c] ! k)) = int k * ?seg"
    by simp
  have inn: "\<forall>k. Suc k < length (map ?f [0..<?c])
               \<longrightarrow> snd (snd (map ?f [0..<?c] ! k)) = PyInt ?seg"
    using inner by simp
  have l1: "num_val (snd (snd (last (map ?f [0..<?c]))))
            = float_sub_int td (fst (snd (last (map ?f [0..<?c]))))"
    unfolding lst using lastd by simp
  have l2: "\<bar>float_sub_int td (fst (snd (last (map ?f [0..<?c]))))
             - (td - of_int (fst (snd (last (map ?f [0..<?c])))))\<bar> \<le> of_int ?seg / 2 ^ 53"
    unfolding lst using e1 by simp
  have l3: "num_val (snd (snd (last (map ?f [0..<?c])))) \<le> of_int ?seg"
    unfolding lst using lastd le by simp
  have l4: "\<bar>sum_list (map (\<lambda>s. num_val (snd (snd s))) (map ?f [0..<?c])) - td\<bar> \<le> td / 2 ^ 53"
    unfolding sm using e2 .
  show ?thesis
    unfolding Let_def segs
    using ne idx inn l1 l2 l3 l4 by blast
qed

text \<open>
  The theorem at 125 seconds cut into segments of 60: the segments are \<open>(0, 60)\<close>,
  \<open>(60, 60)\<close> and \<open>(120, 5)\<close>.
\<close>

theorem segments_cover_duration_witness:
  "executed (run (demo_env ''125.0'' 125 all_ok) (demo_job ''fast'' ''original''))
     = [(0, 0, PyInt 60), (1, 60, PyInt 60), (2, 120, PyFloat 5)]
   \<and> num_val (snd (snd (last
         (executed (run (demo_env ''125.0'' 125 all_ok) (demo_job ''fast'' ''original''))))))
       = float_sub_int 125
           (fst (snd (last
              (executed (run (demo_env ''125.0'' 125 all_ok) (demo_job ''fast'' ''original''))))))
   \<and> \<bar>sum_list (map (\<lambda>s. num_val (snd (snd s)))
          (executed (run (demo_env ''125.0'' 125 all_ok) (demo_job ''fast'' ''original''))))
        - 125\<bar> \<le> 125 / 2 ^ 53"
proof -
  let ?w = "demo_env ''125.0'' 125 all_ok" and ?j = "demo_job ''fast'' ''original''"
  have hyp: "\<forall>i. exit_code (run_segment ?w i) = Some 0"
    by (simp add: demo_env_simps all_ok_def)
  have u: "[0..<3] = [0, Suc 0, 2]" by (simp add: upt_rec)
  have a: "executed (run ?w ?j) = [(0, 0, PyInt 60), (1, 60, PyInt 60), (2, 120, PyFloat 5)]"
    using run_all_ok(1) [OF ready_demo(1) [of all_ok "''fast''"] _ _ hyp]
    by (simp add: demo_job_simps segment_count_eval u duration_at_eval)
  from segments_cover_duration [OF ready_demo(1) [of all_ok "''fast''"] _ _ _ hyp]
  have "num_val (snd (snd (last (executed (run ?w ?j)))))
          = float_sub_int 125 (fst (snd (last (executed (run ?w ?j)))))
        \<and> \<bar>sum_list (map (\<lambda>s. num_val (snd (snd s))) (executed (run ?w ?j))) - 125\<bar>
            \<le> 125 / 2 ^ 53"
    unfolding Let_def demo_job_simps by simp
  with a show ?thesis by blast
qed

text \<open>
  Claim C2. When the total duration is an exact multiple \<open>m * seg\<close> of the segment length,
  a run in which every encoder call exits with 0 calls the encoder for exactly \<open>m\<close>
  segments, each of duration \<open>seg\<close>, and not for one more, although the count it announces,
  \<^verbatim>\<open>num_segments = int(total_duration // segment_duration) + 1\<close>, is \<open>m + 1\<close>: the loop
  is left at the first index whose start is not before the end.
\<close>

theorem exact_multiple_has_no_extra_segment:
  assumes "ready w j fp td target"
    and "0 < segment_duration j" and "0 < m"
    and "td = of_int (m * segment_duration j)" and "td \<le> 2 ^ 53"
    and "\<forall>i. exit_code (run_segment w i) = Some 0"
  shows "executed (run w j)
           = map (\<lambda>i. (i, int i * segment_duration j, PyInt (segment_duration j))) [0..<nat m]
       \<and> length (executed (run w j)) = nat m
       \<and> Progress (Duration_info td (m + 1)) \<in> set (run w j)"
proof -
  let ?seg = "segment_duration j"
  have c: "segment_count td ?seg = nat m"
    unfolding assms(4) using assms(2,3) by (intro segment_count_multiple) simp_all
  have sb: "?seg \<le> 2 ^ 53" and td0: "0 \<le> td"
    using multiple_bounds [OF assms(2,3), of] assms(5) unfolding assms(4) by simp_all
  have ex: "executed (run w j)
            = map (\<lambda>i. (i, int i * ?seg, duration_at td ?seg i)) [0..<nat m]"
    using run_all_ok(1) [OF assms(1,2,5,6) sb td0] unfolding c .
  have d: "duration_at td ?seg i = PyInt ?seg" if "i < nat m" for i
  proof -
    have "int i + 1 \<le> m" using that by simp
    then have "(int i + 1) * ?seg \<le> m * ?seg" using assms(2) by simp
    then have "real_of_int ((int i + 1) * ?seg) \<le> td"
      unfolding assms(4) using of_int_le_iff by blast
    with assms(2,5) show ?thesis by (rule duration_at_full)
  qed
  have e: "executed (run w j) = map (\<lambda>i. (i, int i * ?seg, PyInt ?seg)) [0..<nat m]"
    unfolding ex by (rule map_cong [OF refl]) (simp add: d)
  have "segments_planned td ?seg = m + 1"
    unfolding segments_planned_exact [OF assms(2) sb td0 assms(5)]
    unfolding assms(4) by (rule num_segments_multiple [OF assms(2)])
  then have "Progress (Duration_info td (m + 1)) \<in> set (run w j)"
    using duration_info_emitted [OF assms(1)] by simp
  then show ?thesis using e by simp
qed

text \<open>
  The theorem at 120 seconds cut into segments of 60: two segments, \<open>(0, 60)\<close> and
  \<open>(60, 60)\<close>, and an announced count of three.
\<close>

theorem exact_multiple_has_no_extra_segment_witness:
  "executed (run (demo_env ''120.0'' 120 all_ok) (demo_job ''fast'' ''original''))
     = [(0, 0, PyInt 60), (1, 60, PyInt 60)]
   \<and> length (executed (run (demo_env ''120.0'' 120 all_ok) (demo_job ''fast'' ''original''))) = 2
   \<and> Progress (Duration_info 120 3)
       \<in> set (run (demo_env ''120.0'' 120 all_ok) (demo_job ''fast'' ''original''))"
  using exact_multiple_has_no_extra_segment
    [OF ready_demo(2) [of all_ok "''fast''"], where m = 2]
  by (simp add: demo_job_simps demo_env_simps all_ok_def upt_rec)

text \<open>
  Claim C3. For a source resolution \<open>ow\<close> by \<open>oh\<close> (both positive, read from the probe's
  \<^verbatim>\<open>WIDTHxHEIGHT\<close> output) and each ratio class other than \<^verbatim>\<open>original\<close>,
  \<^verbatim>\<open>calculate_target_resolution\<close> bounds the leading dimension by the smaller of the
  source dimension and the class's ceiling (1920 for the height of 9:16, 1350 for the
  height of 4:5, 1080 for the side of 1:1, 1920 for the width of 16:9) and derives the
  other dimension from the exact ratio by floor, not by rounding.
\<close>

theorem geometry_bounded_and_truncated:
  assumes "parse_resolution res = Some (ow, oh)" and "0 < ow" and "0 < oh"
  shows "calculate_target_resolution res ''9:16''
           = Inr (Some (\<lfloor>real_of_int (min oh 1920 * 9) / 16\<rfloor>, min oh 1920))
       \<and> calculate_target_resolution res ''4:5''
           = Inr (Some (\<lfloor>real_of_int (min oh 1350 * 4) / 5\<rfloor>, min oh 1350))
       \<and> calculate_target_resolution res ''1:1''
           = Inr (Some (min (min ow oh) 1080, min (min ow oh) 1080))
       \<and> calculate_target_resolution res ''16:9''
           = Inr (Some (min ow 1920, \<lfloor>real_of_int (min ow 1920 * 9) / 16\<rfloor>))"
  using assms by (rule target_of_parsed)

text \<open>
  The theorem at the source 1920 by 1080: for 9:16 the height is \<open>min 1080 1920 = 1080\<close>
  and the width is \<open>\<lfloor>1080 * 9 / 16\<rfloor> = \<lfloor>607.5\<rfloor> = 607\<close>.
\<close>

theorem geometry_bounded_and_truncated_witness:
  "calculate_target_resolution ''1920x1080'' ''9:16'' = Inr (Some (607, 1080))
   \<and> calculate_target_resolution ''1920x1080'' ''4:5'' = Inr (Some (864, 1080))
   \<and> calculate_target_resolution ''1920x1080'' ''1:1'' = Inr (Some (1080, 1080))
   \<and> calculate_target_resolution ''1920x1080'' ''16:9'' = Inr (Some (1920, 1080))"
  using geometry_bounded_and_truncated [OF parse_1920x1080] by simp

text \<open>
  Claim C4. Whenever the caller requested fast mode together with a target ratio other
  than \<^verbatim>\<open>original\<close>, every encoder command of the run is built by the second loop, the
  one that re-encodes (its ninth and tenth arguments are \<^verbatim>\<open>-c:v libx264\<close>; the first loop
  would put \<^verbatim>\<open>-c copy\<close> there): the run never announces fast mode, and if the encoder is
  called at all, the notice of the switch to precise mode is emitted before the first
  call.
\<close>

theorem fast_with_aspect_target_is_escalated:
  assumes "mode j = ''fast''" and "resolution j \<noteq> ''original''"
  shows "(\<forall>i s d cmd. Encode i s d cmd \<in> set (run w j)
            \<longrightarrow> (\<exists>l. cmd = precise_cmd w j l i s d)
              \<and> take 2 (drop 8 cmd) = [''-c:v'', ''libx264''])
       \<and> Progress Fast_mode \<notin> set (run w j)
       \<and> (executed (run w j) \<noteq> []
            \<longrightarrow> Progress Switching_to_precise
                  \<in> set (takeWhile (\<lambda>e. \<not> is_encode e) (run w j)))"
proof -
  have m: "effective_mode j \<noteq> ''fast''" using assms by (simp add: effective_mode_def)
  have a: "(\<exists>l. cmd = precise_cmd w j l i s d) \<and> take 2 (drop 8 cmd) = [''-c:v'', ''libx264'']"
    if "Encode i s d cmd \<in> set (run w j)" for i s d cmd
  proof -
    from run_encode [OF that] m obtain l where c: "cmd = precise_cmd w j l i s d" by auto
    have "take 2 (drop 8 (precise_cmd w j l i s d)) = [''-c:v'', ''libx264'']"
      by (simp add: precise_cmd_def)
    with c show ?thesis by blast
  qed
  have b: "Progress Fast_mode \<notin> set (run w j)" using run_fast_notice m by blast
  have c: "executed (run w j) \<noteq> []
            \<longrightarrow> Progress Switching_to_precise
                  \<in> set (takeWhile (\<lambda>e. \<not> is_encode e) (run w j))"
    using run_escalation_notice assms by blast
  from a b c show ?thesis by blast
qed

text \<open>The theorem at 125 seconds, fast mode requested with the target 9:16.\<close>

theorem fast_with_aspect_target_is_escalated_witness:
  "take 2 (drop 8
     [''/opt/splitter/ffmpeg'', ''-accurate_seek'', ''-ss'', ''0'', ''-i'', ''clip.mkv'', ''-t'', ''60'',
      ''-c:v'', ''libx264'', ''-c:a'', ''aac'', ''-preset'', ''medium'', ''-crf'', ''23'',
      ''-b:a'', ''192k'', ''-map'', ''0:v'', ''-map'', ''0:a'', ''-movflags'', ''+faststart'',
      ''-vf'', ''scale=607x1080:force_original_aspect_ratio=increase,crop=607:1080'',
      ''clip/clip_000.mp4'']) = [''-c:v'', ''libx264'']
   \<and> Progress Fast_mode \<notin> set (run (demo_env ''125.0'' 125 all_ok) (demo_job ''fast'' ''9:16''))
   \<and> Progress Switching_to_precise
       \<in> set (takeWhile (\<lambda>e. \<not> is_encode e)
               (run (demo_env ''125.0'' 125 all_ok) (demo_job ''fast'' ''9:16'')))"
proof -
  let ?w = "demo_env ''125.0'' 125 all_ok" and ?j = "demo_job ''fast'' ''9:16''"
  let ?cmd = "[''/opt/splitter/ffmpeg'', ''-accurate_seek'', ''-ss'', ''0'', ''-i'', ''clip.mkv'', ''-t'', ''60'',
      ''-c:v'', ''libx264'', ''-c:a'', ''aac'', ''-preset'', ''medium'', ''-crf'', ''23'',
      ''-b:a'', ''192k'', ''-map'', ''0:v'', ''-map'', ''0:a'', ''-movflags'', ''+faststart'',
      ''-vf'', ''scale=607x1080:force_original_aspect_ratio=increase,crop=607:1080'',
      ''clip/clip_000.mp4'']"
  have h1: "mode ?j = ''fast''" and h2: "resolution ?j \<noteq> ''original''"
    by (simp_all add: demo_job_simps)
  have mem: "Encode 0 0 (PyInt 60) ?cmd \<in> set (run ?w ?j)"
    unfolding demo_trace_escalated by simp
  have ex: "executed (run ?w ?j) \<noteq> []"
    unfolding demo_trace_escalated by simp
  from fast_with_aspect_target_is_escalated [OF h1 h2, of ?w] mem ex
  show ?thesis by blast
qed

text \<open>
  Claim C5. In fast mode (requested fast, target \<^verbatim>\<open>original\<close>), in a run that reaches the
  loop and in which every encoder call returns, whatever its exit code: the encoder is
  called for every segment; a call that exits with a code other than 0 produces a warning
  for that segment and nothing else; no error is emitted; and the run ends with
  \<^verbatim>\<open>finished\<close>. The segment length and the total duration are at most \<open>2 ^ 53\<close>, the
  range in which the floor division of line 73 is exact; it contains the segment lengths
  1 to 3600 that the dialog offers.
\<close>

theorem fast_mode_failures_are_warnings:
  assumes "ready w j fp td target"
    and "mode j = ''fast''" and "resolution j = ''original''"
    and "0 < segment_duration j" and "td \<le> 2 ^ 53"
    and "\<forall>i. exit_code (run_segment w i) \<noteq> None"
    and "segment_duration j \<le> 2 ^ 53"
  shows "map fst (executed (run w j)) = [0..<segment_count td (segment_duration j)]
       \<and> warnings (run w j)
           = map (\<lambda>i. int i + 1)
               (filter (\<lambda>i. exit_code (run_segment w i) \<noteq> Some 0)
                  [0..<segment_count td (segment_duration j)])
       \<and> filter is_error (run w j) = []
       \<and> last (run w j) = Finished True"
proof -
  let ?l = "the_locals w j fp td target"
  let ?c = "segment_count td (segment_duration j)"
  have fast: "effective_mode j = ''fast''" using assms(2,3) by (simp add: effective_mode_def)
  have td': "total_duration ?l \<le> 2 ^ 53" using assms(5) by (simp add: the_locals_simps)
  have n: "segment_count (total_duration ?l) (segment_duration j) \<le> nat (num_segments ?l)"
    by (simp add: the_locals_simps segment_count_le_planned [OF assms(4,7,5)])
  have ex: "\<forall>i < segment_count (total_duration ?l) (segment_duration j).
              exit_code (run_segment w i) \<noteq> None" using assms(6) by simp
  have f: "fast_loop w j ?l [0..<nat (num_segments ?l)]
           = concat (map (fast_iteration w j ?l) [0..<?c]) @ [Finished True]"
    using fast_loop_trace [OF assms(4) td' n ex, of 0] by (simp add: the_locals_simps)
  have tr: "run w j = preamble w j fp td target
              @ Progress Fast_mode # concat (map (fast_iteration w j ?l) [0..<?c])
              @ [Finished True]"
    unfolding run_ready [OF assms(1)] encode_def f using fast by simp
  have a: "map fst (executed (run w j)) = [0..<?c]"
    unfolding tr
    by (simp add: executed_append preamble_quiet executed_fast_iterations executed_indices)
  have b: "warnings (run w j)
           = map (\<lambda>i. int i + 1) (filter (\<lambda>i. exit_code (run_segment w i) \<noteq> Some 0) [0..<?c])"
    unfolding tr by (simp add: warnings_append preamble_quiet warnings_fast_iterations)
  have c: "filter is_error (run w j) = []"
    unfolding tr by (simp add: preamble_quiet errors_fast_iterations)
  have d: "last (run w j) = Finished True" unfolding tr by simp
  from a b c d show ?thesis by blast
qed

text \<open>The theorem at four segments of which the second fails.\<close>

theorem fast_mode_failures_are_warnings_witness:
  "map fst (executed (run (demo_env ''240.0'' 240 second_fails) (demo_job ''fast'' ''original'')))
     = [0, 1, 2, 3]
   \<and> warnings (run (demo_env ''240.0'' 240 second_fails) (demo_job ''fast'' ''original'')) = [2]
   \<and> filter is_error (run (demo_env ''240.0'' 240 second_fails) (demo_job ''fast'' ''original''))
       = []
   \<and> last (run (demo_env ''240.0'' 240 second_fails) (demo_job ''fast'' ''original''))
       = Finished True"
proof -
  have u: "[0..<4] = [0, 1, 2, 3]" by (simp add: upt_rec)
  from fast_mode_failures_are_warnings
    [OF ready_demo(3) [of second_fails "''fast''"]]
  show ?thesis
    by (simp add: demo_job_simps demo_env_simps second_fails_simps segment_count_eval u)
qed

text \<open>
  Claim C6. In precise mode, when the encoder call of segment \<open>f\<close> is the first to exit
  with a code other than 0, the run ends right there with the error for that segment:
  the encoder has been called for the segments up to \<open>f\<close> and for no later one, the error
  is the last event and the only error, and \<^verbatim>\<open>finished\<close> is not emitted. The segment
  length and the total duration are at most \<open>2 ^ 53\<close>, the range in which the floor
  division of line 73 is exact; it contains the segment lengths 1 to 3600 that the dialog
  offers.
\<close>

theorem precise_mode_failure_aborts:
  assumes "ready w j fp td target"
    and "effective_mode j \<noteq> ''fast''"
    and "0 < segment_duration j" and "td \<le> 2 ^ 53"
    and "f < segment_count td (segment_duration j)"
    and "\<forall>i < f. exit_code (run_segment w i) = Some 0"
    and "exit_code (run_segment w f) = Some c" and "c \<noteq> 0"
    and "segment_duration j \<le> 2 ^ 53"
  shows "map fst (executed (run w j)) = [0..<Suc f]
       \<and> last (run w j) = Error (Segment_failed (int f + 1) (std_err (run_segment w f)))
       \<and> filter is_error (run w j)
           = [Error (Segment_failed (int f + 1) (std_err (run_segment w f)))]
       \<and> filter is_finished (run w j) = []
       \<and> length (percentages (run w j)) = f"
proof -
  let ?l = "the_locals w j fp td target"
  let ?c = "segment_count td (segment_duration j)"
  let ?e = "Error (Segment_failed (int f + 1) (std_err (run_segment w f)))"
  have td': "total_duration ?l \<le> 2 ^ 53" using assms(4) by (simp add: the_locals_simps)
  have n: "segment_count (total_duration ?l) (segment_duration j) \<le> nat (num_segments ?l)"
    by (simp add: the_locals_simps segment_count_le_planned [OF assms(3,9,4)])
  have f': "f < segment_count (total_duration ?l) (segment_duration j)"
    using assms(5) by (simp add: the_locals_simps)
  have p: "precise_loop w j ?l [0..<nat (num_segments ?l)]
           = concat (map (precise_iteration w j ?l) [0..<f]) @ precise_failure w j ?l f"
    using precise_loop_abort [OF assms(3) td' n f' assms(6,7,8), of 0] by simp
  have tr: "run w j = preamble w j fp td target
              @ Progress Precise_mode # concat (map (precise_iteration w j ?l) [0..<f])
              @ precise_failure w j ?l f"
    unfolding run_ready [OF assms(1)] encode_def p using assms(2) by simp
  have a: "map fst (executed (run w j)) = [0..<Suc f]"
    unfolding tr
    by (simp add: executed_append preamble_quiet executed_precise_iterations executed_indices
        precise_failure_def creating_def Let_def)
  have b: "last (run w j) = ?e"
    unfolding tr by (simp add: precise_failure_def Let_def)
  have c: "filter is_error (run w j) = [?e]"
    unfolding tr
    by (simp add: preamble_quiet errors_precise_iterations precise_failure_def creating_def Let_def)
  have d: "filter is_finished (run w j) = []"
    unfolding tr
    by (simp add: finished_preamble finished_precise_iterations precise_failure_def
        creating_def Let_def)
  have e: "length (percentages (run w j)) = f"
    unfolding tr
    by (simp add: percentages_append preamble_quiet percentages_precise_iterations
        precise_failure_def creating_def Let_def)
  from a b c d e show ?thesis by blast
qed

text \<open>The theorem at four segments of which the second fails.\<close>

theorem precise_mode_failure_aborts_witness:
  "map fst (executed (run (demo_env ''240.0'' 240 second_fails) (demo_job ''precise'' ''original'')))
     = [0, 1]
   \<and> last (run (demo_env ''240.0'' 240 second_fails) (demo_job ''precise'' ''original''))
       = Error (Segment_failed 2 ''broken'')
   \<and> filter is_error (run (demo_env ''240.0'' 240 second_fails) (demo_job ''precise'' ''original''))
       = [Error (Segment_failed 2 ''broken'')]
   \<and> filter is_finished
        (run (demo_env ''240.0'' 240 second_fails) (demo_job ''precise'' ''original'')) = []
   \<and> length (percentages
        (run (demo_env ''240.0'' 240 second_fails) (demo_job ''precise'' ''original''))) = 1"
proof -
  have u: "[0..<2] = [0, 1]" by (simp add: upt_rec)
  from precise_mode_failure_aborts
    [OF ready_demo(3) [of second_fails "''precise''"], where f = 1 and c = 1]
  show ?thesis
    by (simp add: demo_job_simps demo_env_simps second_fails_simps segment_count_eval u
        effective_mode_def)
qed

text \<open>
  Claim C7 says that the percentage after segment \<open>i\<close> is
  \<open>round((i+1)/segmentCount * 100)\<close>. The worker computes
  \<^verbatim>\<open>int((i + 1) / num_segments * 100)\<close>, which truncates. For 125 seconds cut into segments
  of 60 the count is 3, and after the second segment the worker emits 66, while the
  rounded value of \<open>2 / 3 * 100\<close> is 67.
\<close>

theorem percentage_is_not_rounded_counterexample:
  "percentages (run (demo_env ''125.0'' 125 all_ok) (demo_job ''precise'' ''original'')) ! 1 = 66
   \<and> round (real_of_int (1 + 1) / real_of_int (\<lfloor>(125::real) / 60\<rfloor> + 1) * 100) = (67::int)"
proof -
  have hyp: "\<forall>i. exit_code (run_segment (demo_env ''125.0'' 125 all_ok) i) = Some 0"
    by (simp add: demo_env_simps all_ok_def)
  have u: "[0..<3] = [0, 1, 2]" by (simp add: upt_rec)
  have "percentages (run (demo_env ''125.0'' 125 all_ok) (demo_job ''precise'' ''original''))
        = [33, 66, 100]"
    using run_all_ok(2) [OF ready_demo(1) [of all_ok "''precise''"] _ _ hyp]
    by (simp add: demo_job_simps segment_count_eval u pct_eval)
  moreover have "round (real_of_int (1 + 1) / real_of_int (\<lfloor>(125::real) / 60\<rfloor> + 1) * 100) = (67::int)"
    by (simp add: round_def)
  ultimately show ?thesis by simp
qed

text \<open>
  Claim C7, amended. In a run that reaches the loops and in which every encoder call
  exits with 0, each encoder call is followed by exactly one percentage event before the
  next call; after segment \<open>i\<close> its value is \<^verbatim>\<open>int((i + 1) / num_segments * 100)\<close>, the float
  product truncated towards zero, with
  \<^verbatim>\<open>num_segments = int(total_duration // segment_duration) + 1\<close>; and the values never
  decrease. The total duration and the segment length are at most \<open>2 ^ 53\<close>, the range
  in which the floor division of line 73 is exact, so that \<^verbatim>\<open>num_segments\<close> is the floor
  of the quotient plus one; it contains the segment lengths 1 to 3600 that the dialog
  offers.
\<close>

theorem percentages_truncate_and_never_decrease:
  assumes "ready w j fp td target"
    and "0 < td" and "td \<le> 2 ^ 53" and "0 < segment_duration j"
    and "\<forall>i. exit_code (run_segment w i) = Some 0"
    and "segment_duration j \<le> 2 ^ 53"
  shows "let n = \<lfloor>td / of_int (segment_duration j)\<rfloor> + 1
         in milestones (run w j)
              = concat (map (\<lambda>i. [Inl i,
                    Inr (py_int (float_mul_int (fl (of_int (int i + 1) / of_int n)) 100))])
                  [0..<length (executed (run w j))])
          \<and> sorted (percentages (run w j))"
proof -
  let ?n = "\<lfloor>td / of_int (segment_duration j)\<rfloor> + 1"
  let ?c = "segment_count td (segment_duration j)"
  have td0: "0 \<le> td" using assms(2) by simp
  have len: "length (executed (run w j)) = ?c"
    using run_all_ok(1) [OF assms(1,4,3,5,6) td0] by simp
  have m: "milestones (run w j) = concat (map (\<lambda>i. [Inl i, Inr (pct i ?n)]) [0..<?c])"
    using assms(1,4,3,5,6) td0 by (rule run_all_ok_milestones)
  have n: "0 < ?n" using assms(4,2) by (rule num_segments_pos)
  have "sorted (map (\<lambda>i. pct i ?n) [0..<?c])"
    by (rule sorted_map_upt) (rule pct_mono [OF n])
  then have s: "sorted (percentages (run w j))"
    using run_all_ok(2) [OF assms(1,4,3,5,6) td0] by simp
  show ?thesis
    unfolding Let_def len using m s by (simp add: pct_def)
qed

theorem percentages_truncate_and_never_decrease_witness:
  "milestones (run (demo_env ''125.0'' 125 all_ok) (demo_job ''precise'' ''original''))
     = [Inl 0, Inr 33, Inl 1, Inr 66, Inl 2, Inr 100]
   \<and> sorted (percentages (run (demo_env ''125.0'' 125 all_ok) (demo_job ''precise'' ''original'')))"
proof -
  have len: "length (executed (run (demo_env ''125.0'' 125 all_ok) (demo_job ''precise'' ''original''))) = 3"
    using run_all_ok(1) [OF ready_demo(1) [of all_ok "''precise''"]]
    by (simp add: demo_job_simps demo_env_simps all_ok_def segment_count_eval)
  have hyp: "\<forall>i. exit_code (run_segment (demo_env ''125.0'' 125 all_ok) i) = Some 0"
    by (simp add: demo_env_simps all_ok_def)
  have fl3: "\<lfloor>(125::real) / 60\<rfloor> + 1 = 3" by simp
  have u: "[0..<3] = [0, 1, 2]" by (simp add: upt_rec)
  from percentages_truncate_and_never_decrease
    [OF ready_demo(1) [of all_ok "''precise''"] _ _ _ hyp]
  show ?thesis
    unfolding Let_def len demo_job_simps
    by (simp add: fl3 u percent_eval)
qed



text \<open>
  Claim C9 says that when the resolution probe fails the fallback to 1920 by 1080 is
  surfaced to the caller as a warning. The worker emits nothing for it: a run whose
  resolution probe exits with 1 emits exactly the events of the run whose probe printed
  \<^verbatim>\<open>1920x1080\<close>, so the caller cannot tell that the fallback took place.
\<close>

theorem resolution_fallback_counterexample:
  "run ((demo_env ''125.0'' 125 all_ok)\<lparr>run_resolution := Exited 1 [] ''no video stream''\<rparr>)
     (demo_job ''fast'' ''9:16'')
   = run (demo_env ''125.0'' 125 all_ok) (demo_job ''fast'' ''9:16'')"
  by (rule run_same_resolution_read)
     (simp_all add: demo_env_def resolution_read_def original_resolution_of_def strip_def
        is_space_def)

text \<open>
  Claim C9, amended. A failing resolution probe does not fail the run, and the fallback
  to 1920 by 1080 is silent. When the probe exits with a code other than 0, the run
  emits exactly the events of the run whose probe printed \<^verbatim>\<open>1920x1080\<close>. When the probe
  exits with 0 and its output is not two integers separated by \<^verbatim>\<open>x\<close>, the run emits the
  events of that run except for the text of the progress line that echoes the probe's
  output; and \<^verbatim>\<open>calculate_target_resolution\<close> computes from 1920 by 1080.
\<close>

theorem resolution_fallback_is_silent:
  "(exit_code (run_resolution w) = Some c \<and> c \<noteq> 0
      \<longrightarrow> run w j = run (w\<lparr>run_resolution := Exited 0 ''1920x1080'' []\<rparr>) j)
   \<and> (exit_code (run_resolution w) = Some 0
        \<and> parse_resolution (strip (std_out (run_resolution w))) = None
      \<longrightarrow> map hide_resolution (run w j)
          = map hide_resolution (run (w\<lparr>run_resolution := Exited 0 ''1920x1080'' []\<rparr>) j))
   \<and> (parse_resolution res = None
      \<longrightarrow> calculate_target_resolution res ratio
          = calculate_target_resolution ''1920x1080'' ratio)"
  using run_probe_error [of w c j] run_probe_unparsed [of w j] target_of_unparsed [of res ratio]
  by blast

text \<open>
  The theorem at a probe that exits with 1, and at a probe that prints \<^verbatim>\<open>N/A\<close>.
\<close>

theorem resolution_fallback_is_silent_witness:
  "run ((demo_env ''125.0'' 125 all_ok)\<lparr>run_resolution := Exited 1 [] ''no video stream''\<rparr>)
     (demo_job ''fast'' ''9:16'')
   = run ((demo_env ''125.0'' 125 all_ok)\<lparr>run_resolution := Exited 0 ''1920x1080'' []\<rparr>)
       (demo_job ''fast'' ''9:16'')
   \<and> map hide_resolution
        (run ((demo_env ''125.0'' 125 all_ok)\<lparr>run_resolution := Exited 0 ''N/A'' []\<rparr>)
           (demo_job ''fast'' ''9:16''))
     = map hide_resolution
        (run ((demo_env ''125.0'' 125 all_ok)\<lparr>run_resolution := Exited 0 ''1920x1080'' []\<rparr>)
           (demo_job ''fast'' ''9:16''))
   \<and> calculate_target_resolution ''N/A'' ''9:16'' = Inr (Some (607, 1080))"
proof -
  let ?w = "demo_env ''125.0'' 125 all_ok" and ?j = "demo_job ''fast'' ''9:16''"
  have s: "strip ''N/A'' = ''N/A''" by (simp add: strip_def is_space_def)
  from resolution_fallback_is_silent
    [of "?w\<lparr>run_resolution := Exited 1 [] ''no video stream''\<rparr>" 1 ?j "''N/A''" "''9:16''"]
  have a: "run (?w\<lparr>run_resolution := Exited 1 [] ''no video stream''\<rparr>) ?j
           = run (?w\<lparr>run_resolution := Exited 0 ''1920x1080'' []\<rparr>) ?j"
    and c: "calculate_target_resolution ''N/A'' ''9:16'' = Inr (Some (607, 1080))"
    by (simp_all add: parse_not_available target_1920x1080)
  from resolution_fallback_is_silent
    [of "?w\<lparr>run_resolution := Exited 0 ''N/A'' []\<rparr>" 0 ?j "''N/A''" "''9:16''"]
  have b: "map hide_resolution (run (?w\<lparr>run_resolution := Exited 0 ''N/A'' []\<rparr>) ?j)
           = map hide_resolution (run (?w\<lparr>run_resolution := Exited 0 ''1920x1080'' []\<rparr>) ?j)"
    by (simp add: parse_not_available s)
  from a b c show ?thesis by blast
qed

text \<open>
  Claim C10. For every total duration \<open>0 < td < 2 ^ 53\<close> and segment length
  \<open>0 < seg \<le> 2 ^ 53\<close>, in a run that
  completes, the last percentage event is 100 exactly when \<open>td\<close> is not an integer
  multiple of \<open>seg\<close>; when it is a multiple, every percentage of the run is below 100,
  because \<^verbatim>\<open>num_segments\<close> counts one more segment than the loop executes. The bound
  \<open>2 ^ 53\<close> is the range in which a float holds every integer exactly: there the
  conversion of the segment length to a float and the floor division of line 73 are
  exact. It contains the segment lengths 1 to 3600 that the dialog offers.
\<close>

theorem final_percentage_reaches_100_unless_exact_multiple:
  assumes "ready w j fp td target"
    and "0 < td" and "td < 2 ^ 53" and "0 < segment_duration j"
    and "\<forall>i. exit_code (run_segment w i) = Some 0"
    and "segment_duration j \<le> 2 ^ 53"
  shows "let ps = percentages (run w j)
         in ps \<noteq> []
          \<and> (last ps = 100 \<longleftrightarrow> \<not> (\<exists>m::int. td = of_int (m * segment_duration j)))
          \<and> ((\<exists>m::int. td = of_int (m * segment_duration j)) \<longrightarrow> (\<forall>p \<in> set ps. p < 100))"
proof -
  let ?seg = "segment_duration j"
  let ?n = "\<lfloor>td / of_int ?seg\<rfloor> + 1"
  let ?c = "segment_count td ?seg"
  have td: "td \<le> 2 ^ 53" using assms(3) by simp
  have td0: "0 \<le> td" using assms(2) by simp
  note lp = last_percentage [OF assms(1,2) td assms(4,5,6)]
  note p = run_all_ok(2) [OF assms(1,4) td assms(5,6) td0]
  have c: "0 < ?c" using assms(4,2) by (rule segment_count_pos)
  have n: "0 < ?n" using assms(4,2) by (rule num_segments_pos)
  have mult: "\<forall>p \<in> set (percentages (run w j)). p < 100"
    if m: "td = of_int (m * ?seg)" for m
  proof -
    have mpos: "0 < m"
    proof (rule ccontr)
      assume "\<not> 0 < m"
      then have "m * ?seg \<le> 0" using assms(4) by (simp add: mult_le_0_iff)
      then have "real_of_int (m * ?seg) \<le> 0" using of_int_le_0_iff by blast
      then show False using assms(2) m by simp
    qed
    have cm: "?c = nat m" unfolding m using assms(4) mpos by (intro segment_count_multiple) simp_all
    have nm: "?n = m + 1" unfolding m using assms(4) by (rule num_segments_multiple)
    have "m \<le> m * ?seg" using assms(4) mpos by simp
    moreover have "m * ?seg < 2 ^ 53"
    proof -
      have "real_of_int (m * ?seg) < real_of_int (2 ^ 53)" using assms(3) m by simp
      then show ?thesis using of_int_less_iff by blast
    qed
    ultimately have nb: "?n \<le> 2 ^ 53" unfolding nm by simp
    have "pct i ?n < 100" if "i < ?c" for i
    proof -
      have "int i + 1 < ?n" using that unfolding cm nm by simp
      then show ?thesis using nb by (rule pct_below)
    qed
    then show ?thesis unfolding p by simp
  qed
  have nonmult: "last (percentages (run w j)) = 100"
    if nm: "\<not> (\<exists>m::int. td = of_int (m * ?seg))"
  proof -
    have "td / of_int ?seg \<noteq> of_int \<lfloor>td / of_int ?seg\<rfloor>"
    proof
      assume e: "td / of_int ?seg = of_int \<lfloor>td / of_int ?seg\<rfloor>"
      have "td = td / of_int ?seg * of_int ?seg" using assms(4) by simp
      also have "\<dots> = of_int (\<lfloor>td / of_int ?seg\<rfloor> * ?seg)" by (subst e) simp
      finally show False using nm by blast
    qed
    then have "\<lceil>td / of_int ?seg\<rceil> = ?n" by (simp add: ceiling_altdef)
    then have "int ?c = ?n" using n by (simp add: segment_count_def)
    then have "int (?c - 1) + 1 = ?n" using c by simp
    with n have "pct (?c - 1) ?n = 100" by (rule pct_full)
    then show ?thesis unfolding lp(2) .
  qed
  have ne: "percentages (run w j) \<noteq> []" by (rule lp(1))
  have iff: "last (percentages (run w j)) = 100
             \<longleftrightarrow> \<not> (\<exists>m::int. td = of_int (m * ?seg))"
  proof
    assume l: "last (percentages (run w j)) = 100"
    show "\<not> (\<exists>m::int. td = of_int (m * ?seg))"
    proof
      assume "\<exists>m::int. td = of_int (m * ?seg)"
      then obtain m where "td = of_int (m * ?seg)" by blast
      from mult [OF this] ne have "last (percentages (run w j)) < 100" by simp
      with l show False by simp
    qed
  next
    assume "\<not> (\<exists>m::int. td = of_int (m * ?seg))"
    then show "last (percentages (run w j)) = 100" by (rule nonmult)
  qed
  show ?thesis unfolding Let_def using ne iff mult by blast
qed

text \<open>
  The theorem at 120 seconds cut into segments of 60, an exact multiple (the percentages
  are 33 and 66), and at 125 seconds, which is not one (the last percentage is 100).
\<close>

theorem final_percentage_reaches_100_unless_exact_multiple_witness:
  "percentages (run (demo_env ''120.0'' 120 all_ok) (demo_job ''fast'' ''original'')) = [33, 66]
   \<and> last (percentages (run (demo_env ''120.0'' 120 all_ok) (demo_job ''fast'' ''original'')))
       < 100
   \<and> last (percentages (run (demo_env ''125.0'' 125 all_ok) (demo_job ''fast'' ''original'')))
       = 100"
proof -
  have hyp: "\<forall>i. exit_code (run_segment (demo_env out td all_ok) i) = Some 0" for out td
    by (simp add: demo_env_simps all_ok_def)
  have m: "\<exists>m::int. (120::real) = of_int (m * 60)"
    by (rule exI [of _ 2]) simp
  have n: "\<not> (\<exists>m::int. (125::real) = of_int (m * 60))"
  proof
    assume "\<exists>m::int. (125::real) = of_int (m * 60)"
    then obtain m :: int where "real_of_int 125 = real_of_int (m * 60)" by auto
    then have "125 = m * 60" using of_int_eq_iff by blast
    then show False by presburger
  qed
  have u: "[0..<2] = [0, Suc 0]" by (simp add: upt_rec)
  have fl3: "\<lfloor>(120::real) / 60\<rfloor> + 1 = 3" by simp
  have e: "percentages (run (demo_env ''120.0'' 120 all_ok) (demo_job ''fast'' ''original''))
           = [33, 66]"
    using run_all_ok(2) [OF ready_demo(2) [of all_ok "''fast''"] _ _ hyp]
    by (simp add: demo_job_simps segment_count_eval u fl3 pct_eval)
  from final_percentage_reaches_100_unless_exact_multiple
    [OF ready_demo(2) [of all_ok "''fast''"] _ _ _ hyp]
  have "\<forall>p \<in> set (percentages (run (demo_env ''120.0'' 120 all_ok)
                        (demo_job ''fast'' ''original''))). p < 100"
    unfolding Let_def demo_job_simps using m by simp
  then have a: "last (percentages (run (demo_env ''120.0'' 120 all_ok)
                        (demo_job ''fast'' ''original''))) < 100"
    unfolding e by simp
  from final_percentage_reaches_100_unless_exact_multiple
    [OF ready_demo(1) [of all_ok "''fast''"] _ _ _ hyp]
  have b: "last (percentages (run (demo_env ''125.0'' 125 all_ok) (demo_job ''fast'' ''original'')))
       = 100"
    unfolding Let_def demo_job_simps using n by simp
  from e a b show ?thesis by blast
qed

end
